theory Spec2Isabelle
  imports Main "HOL-Library.Word"
begin

text \<open>
  A shallow embedding of parts of the Rebol/Ren-C interpreter core: the comparison, length
  and tail of objects (\<^verbatim>\<open>t-object.c\<close>), the error catalog, the construction of errors,
  the trap mechanism and the exit status (\<^verbatim>\<open>c-error.c\<close>), and the parameter list and
  spec analysis of functions (\<^verbatim>\<open>c-function.c\<close>). Each definition follows the C
  function of its name; assertions are those of a release build, that is, compiled out.
\<close>

section \<open>Value cells, series and frames\<close>

text \<open>
  A symbol is its number in the symbol table (\<^verbatim>\<open>REBCNT\<close>); a series pointer is an address.
\<close>

type_synonym sym = nat
type_synonym addr = nat

text \<open>The kind byte of a cell, grouped as the type-test macros group it.\<close>

datatype word_kind =
  REB_WORD | REB_SET_WORD | REB_GET_WORD | REB_LIT_WORD | REB_REFINEMENT | REB_ISSUE

datatype binstr_kind = REB_BINARY | REB_STRING | REB_FILE | REB_EMAIL | REB_URL | REB_TAG

datatype array_kind = REB_BLOCK | REB_GROUP | REB_PATH

datatype obj_kind = REB_OBJECT | REB_MODULE | REB_ERROR | REB_TASK | REB_PORT

datatype ts_ext =
  EXT_TYPESET_QUOTE | EXT_TYPESET_EVALUATE | EXT_TYPESET_REFINEMENT
  | EXT_TYPESET_HIDDEN | EXT_TYPESET_LOCKED

text \<open>
  A value cell (\<^verbatim>\<open>REBVAL\<close>): the kind selects the payload. Integers are 64-bit
  (\<^verbatim>\<open>REBI64\<close>); an object-like value holds the address of its frame; a typeset
  that is a key carries its symbol, its 64 type bits and its extension flags.
  \<open>V_Other n\<close> stands for every datatype with no payload read by the code below.
\<close>

datatype rebval =
    V_End
  | V_Unset
  | V_None
  | V_Logic bool
  | V_Integer "64 word"
  | V_BinStr binstr_kind string
  | V_Array array_kind "rebval list"
  | V_Word word_kind sym
  | V_Typeset sym "64 word" "ts_ext set"
  | V_Obj obj_kind addr
  | V_Other nat

datatype reb_type =
    T_End | T_Unset | T_None | T_Logic | T_Integer | T_BinStr binstr_kind
  | T_Array array_kind | T_Word word_kind | T_Typeset | T_Obj obj_kind | T_Other nat

fun VAL_TYPE :: "rebval \<Rightarrow> reb_type" where
  "VAL_TYPE V_End = T_End"
| "VAL_TYPE V_Unset = T_Unset"
| "VAL_TYPE V_None = T_None"
| "VAL_TYPE (V_Logic b) = T_Logic"
| "VAL_TYPE (V_Integer i) = T_Integer"
| "VAL_TYPE (V_BinStr k s) = T_BinStr k"
| "VAL_TYPE (V_Array k xs) = T_Array k"
| "VAL_TYPE (V_Word k s) = T_Word k"
| "VAL_TYPE (V_Typeset s b e) = T_Typeset"
| "VAL_TYPE (V_Obj k a) = T_Obj k"
| "VAL_TYPE (V_Other n) = T_Other n"

definition IS_END :: "rebval \<Rightarrow> bool" where "IS_END v = (VAL_TYPE v = T_End)"
definition IS_UNSET :: "rebval \<Rightarrow> bool" where "IS_UNSET v = (VAL_TYPE v = T_Unset)"
definition IS_NONE :: "rebval \<Rightarrow> bool" where "IS_NONE v = (VAL_TYPE v = T_None)"
definition IS_INTEGER :: "rebval \<Rightarrow> bool" where "IS_INTEGER v = (VAL_TYPE v = T_Integer)"
definition IS_STRING :: "rebval \<Rightarrow> bool" where "IS_STRING v = (VAL_TYPE v = T_BinStr REB_STRING)"
definition IS_TAG :: "rebval \<Rightarrow> bool" where "IS_TAG v = (VAL_TYPE v = T_BinStr REB_TAG)"
definition IS_BLOCK :: "rebval \<Rightarrow> bool" where "IS_BLOCK v = (VAL_TYPE v = T_Array REB_BLOCK)"
definition IS_WORD :: "rebval \<Rightarrow> bool" where "IS_WORD v = (VAL_TYPE v = T_Word REB_WORD)"
definition IS_SET_WORD :: "rebval \<Rightarrow> bool" where "IS_SET_WORD v = (VAL_TYPE v = T_Word REB_SET_WORD)"
definition IS_REFINEMENT :: "rebval \<Rightarrow> bool" where
  "IS_REFINEMENT v = (VAL_TYPE v = T_Word REB_REFINEMENT)"
definition IS_OBJECT :: "rebval \<Rightarrow> bool" where "IS_OBJECT v = (VAL_TYPE v = T_Obj REB_OBJECT)"
definition IS_ERROR :: "rebval \<Rightarrow> bool" where "IS_ERROR v = (VAL_TYPE v = T_Obj REB_ERROR)"

fun ANY_WORD :: "rebval \<Rightarrow> bool" where
  "ANY_WORD (V_Word k s) = True"
| "ANY_WORD v = False"

fun ANY_BINSTR :: "rebval \<Rightarrow> bool" where
  "ANY_BINSTR (V_BinStr k s) = True"
| "ANY_BINSTR v = False"

text \<open>
  A frame is a value series with its key series beside it (\<^verbatim>\<open>FRM_WORD_SERIES\<close>,
  \<^verbatim>\<open>FRM_KEYLIST\<close>). Slot 0 of both is the reserved self slot. The tail of a series
  is the length of the list; the cell at the tail is the end marker.
\<close>

record frame =
  keylist :: "rebval list"
  varlist :: "rebval list"

record heap =
  frames :: "addr \<Rightarrow> frame"
  next_free :: addr

definition SERIES_TAIL :: "rebval list \<Rightarrow> nat" where
  "SERIES_TAIL s = length s"

text \<open>
  \<^verbatim>\<open>BLK_SKIP(s, n)\<close>: the cell at index n. A series is terminated, so the cell at the
  tail reads as the end marker.
\<close>

definition BLK_SKIP :: "rebval list \<Rightarrow> nat \<Rightarrow> rebval" where
  "BLK_SKIP s n = (if n < length s then s ! n else V_End)"

definition FRM_VALUE :: "frame \<Rightarrow> nat \<Rightarrow> rebval" where
  "FRM_VALUE f n = BLK_SKIP (varlist f) n"

definition FRM_KEY :: "frame \<Rightarrow> nat \<Rightarrow> rebval" where
  "FRM_KEY f n = BLK_SKIP (keylist f) n"

text \<open>
  Failures: \<^verbatim>\<open>fail (Error(RE_..., arg))\<close> and the \<^verbatim>\<open>Trap_...\<close> calls never return; they
  are the left summand. \<open>RE_OTHER n\<close> is the error of number \<open>n\<close>, for the errors raised
  by code that is defined elsewhere. \<open>Bad_Read\<close> is a read the C code does not guard (a
  payload of the wrong kind, a cell past the tail, a null pointer).
\<close>

datatype error =
    RE_INVALID_ERROR rebval
  | RE_BAD_FUNC_DEF rebval
  | RE_DUP_VARS rebval
  | RE_OTHER nat
  | Trap_Action reb_type
  | Panic
  | Bad_Read

section \<open>Objects: length and tail (t-object.c)\<close>

text \<open>
  The tail of a series is an unsigned 32-bit count (\<^verbatim>\<open>REBCNT\<close>):
  \<^verbatim>\<open>SERIES_TAIL(...) - 1\<close> is computed in that type, and \<^verbatim>\<open>SET_INTEGER\<close> stores the
  result zero-extended in the 64-bit integer of the cell.
\<close>

definition REBCNT_of :: "nat \<Rightarrow> 32 word" where
  "REBCNT_of n = word_of_nat n"

datatype obj_action = A_LENGTHQ | A_TAILQ

text \<open>The \<^verbatim>\<open>A_LENGTHQ\<close> and \<^verbatim>\<open>A_TAILQ\<close> cases of \<^verbatim>\<open>REBTYPE(Object)\<close>.\<close>

fun T_Object :: "heap \<Rightarrow> obj_action \<Rightarrow> rebval \<Rightarrow> error + rebval" where
  "T_Object h A_LENGTHQ (V_Obj REB_OBJECT a) =
     Inr (V_Integer (ucast (REBCNT_of (SERIES_TAIL (varlist (frames h a))) - 1)))"
| "T_Object h A_TAILQ (V_Obj REB_OBJECT a) =
     Inr (V_Logic (SERIES_TAIL (varlist (frames h a)) \<le> 1))"
| "T_Object h act v = Inl (Trap_Action (VAL_TYPE v))"

section \<open>Exit status (c-error.c)\<close>

text \<open>
  \<^verbatim>\<open>VAL_INT32(v)\<close> is \<^verbatim>\<open>(REBINT)((v)->data.integer)\<close>: the low 32 bits of the integer.
  Read from a cell of another kind it is a read of the wrong payload.
\<close>

fun VAL_INT32 :: "rebval \<Rightarrow> error + 32 word" where
  "VAL_INT32 (V_Integer i) = Inr (ucast i)"
| "VAL_INT32 v = Inl Bad_Read"

text \<open>
  \<^verbatim>\<open>ERR_VALUES(frame)\<close> views the value series as the struct of the fixed fields:
  self, code, type, id, message, where, nearest.
\<close>

definition err_code :: "frame \<Rightarrow> rebval" where "err_code f = FRM_VALUE f 1"
definition err_type :: "frame \<Rightarrow> rebval" where "err_type f = FRM_VALUE f 2"
definition err_id :: "frame \<Rightarrow> rebval" where "err_id f = FRM_VALUE f 3"
definition err_message :: "frame \<Rightarrow> rebval" where "err_message f = FRM_VALUE f 4"

definition ERR_NUM :: "frame \<Rightarrow> error + 32 word" where
  "ERR_NUM f = VAL_INT32 (err_code f)"

text \<open>
  \<^verbatim>\<open>Exit_Status_From_Value(value)\<close>. The thrown bit of the cell is only asserted to be
  clear; no branch reads it.
\<close>

fun Exit_Status_From_Value :: "heap \<Rightarrow> rebval \<Rightarrow> error + 32 word" where
  "Exit_Status_From_Value h (V_Integer i) = VAL_INT32 (V_Integer i)"
| "Exit_Status_From_Value h V_Unset = Inr 0"
| "Exit_Status_From_Value h V_None = Inr 0"
| "Exit_Status_From_Value h (V_Obj REB_ERROR a) = ERR_NUM (frames h a)"
| "Exit_Status_From_Value h v = Inr 1"

section \<open>Object comparison (t-object.c)\<close>

text \<open>\<^verbatim>\<open>VAL_OBJ_FRAME(v)\<close>: the frame pointer in the payload of an object-like value.\<close>

fun VAL_OBJ_FRAME :: "rebval \<Rightarrow> error + addr" where
  "VAL_OBJ_FRAME (V_Obj k a) = Inr a"
| "VAL_OBJ_FRAME v = Inl Bad_Read"








section \<open>The error catalog (c-error.c)\<close>

text \<open>
  What the code takes from the boot data, the symbol table and the evaluator, all defined
  elsewhere: the canon form of a symbol (\<^verbatim>\<open>SYMBOL_TO_CANON\<close>), the frame of the error
  catalog (\<^verbatim>\<open>VAL_OBJ_FRAME(Get_System(SYS_CATALOG, CAT_ERRORS))\<close>), the frame of the
  root error object (\<^verbatim>\<open>VAL_OBJ_FRAME(ROOT_ERROBJ)\<close>), the symbol \<^verbatim>\<open>SYM_TYPE\<close>, and the
  two calls into the evaluator made for a block argument: \<^verbatim>\<open>Make_Object\<close> on the root
  frame and the block, and \<^verbatim>\<open>DO_ARRAY_THROWS\<close> on the block bound to the new frame,
  which either fails, as any code that is evaluated can, or gives the thrown flag, the
  cell written to its output and the heap it leaves.

  The last three fields are the bits of a cell where the code reads a field that the
  cell does not hold. The read macros test nothing, and the code reads
  \<^verbatim>\<open>VAL_WORD_SYM\<close> of a value that is no word, \<^verbatim>\<open>VAL_TYPESET_SYM\<close> of the terminator of
  a key series and \<^verbatim>\<open>VAL_INT32\<close> of a value that is no integer: it gets what lies in the
  cell at that place and goes on. The cells of this model carry no such bits, so they are
  given from outside, as a function of the cell, and nothing is assumed about them.
\<close>

record env =
  SYMBOL_TO_CANON :: "sym \<Rightarrow> sym"
  CAT_ERRORS :: addr
  ROOT_ERROBJ :: addr
  SYM_TYPE :: sym
  Make_Object :: "heap \<Rightarrow> addr \<Rightarrow> rebval list \<Rightarrow> addr \<times> heap"
  DO_ARRAY_THROWS :: "heap \<Rightarrow> addr \<Rightarrow> rebval \<Rightarrow> error + (bool \<times> rebval \<times> heap)"
  WORD_SYM_BITS :: "rebval \<Rightarrow> sym"
  TYPESET_SYM_BITS :: "rebval \<Rightarrow> sym"
  INT32_BITS :: "rebval \<Rightarrow> 32 word"

definition RE_USER :: "32 word" where
  "RE_USER = 1000"

text \<open>\<^verbatim>\<open>SAME_SYM(a, b)\<close>: the same symbol, or the same canon symbol.\<close>

definition SAME_SYM :: "(sym \<Rightarrow> sym) \<Rightarrow> sym \<Rightarrow> sym \<Rightarrow> bool" where
  "SAME_SYM canon s1 s2 = (s1 = s2 \<or> canon s1 = canon s2)"

fun VAL_WORD_SYM :: "rebval \<Rightarrow> error + sym" where
  "VAL_WORD_SYM (V_Word k s) = Inr s"
| "VAL_WORD_SYM v = Inl Bad_Read"

fun VAL_TYPESET_SYM :: "rebval \<Rightarrow> error + sym" where
  "VAL_TYPESET_SYM (V_Typeset s b x) = Inr s"
| "VAL_TYPESET_SYM v = Inl Bad_Read"

text \<open>
  The three reads as \<^verbatim>\<open>Find_Error_For_Code\<close> and \<^verbatim>\<open>Make_Error_Object_Throws\<close> make
  them, on any cell: the field where the cell holds it, the bits of the environment where
  it does not.
\<close>

definition WORD_SYM_read :: "env \<Rightarrow> rebval \<Rightarrow> sym" where
  "WORD_SYM_read e v = (case VAL_WORD_SYM v of Inr s \<Rightarrow> s | Inl er \<Rightarrow> WORD_SYM_BITS e v)"

definition TYPESET_SYM_read :: "env \<Rightarrow> rebval \<Rightarrow> sym" where
  "TYPESET_SYM_read e v = (case VAL_TYPESET_SYM v of Inr s \<Rightarrow> s | Inl er \<Rightarrow> TYPESET_SYM_BITS e v)"

definition INT32_read :: "env \<Rightarrow> rebval \<Rightarrow> 32 word" where
  "INT32_read e v = (case VAL_INT32 v of Inr i \<Rightarrow> i | Inl er \<Rightarrow> INT32_BITS e v)"

text \<open>
  \<^verbatim>\<open>Find_Error_For_Code(id_out, type_out, code)\<close>. The result is the cell the returned
  pointer points to (\<open>None\<close> for \<^verbatim>\<open>NULL\<close>) with the contents of the two output cells
  after the call. The assertions are compiled out of a release build; each
  \<^verbatim>\<open>assert(FALSE); return NULL;\<close> is the return. The bound test lets the slot at the tail
  through (\<^verbatim>\<open>n + 3 > SERIES_TAIL(category)\<close>): there the message is the terminator of
  the value series and the id is read from the terminator of the key series.
\<close>

definition Find_Error_For_Code ::
  "env \<Rightarrow> heap \<Rightarrow> rebval \<Rightarrow> rebval \<Rightarrow> 32 word \<Rightarrow> error + (rebval option \<times> rebval \<times> rebval)" where
  "Find_Error_For_Code e h id_out type_out code =
     (let categories = frames h (CAT_ERRORS e);
          n = unat (code div 100)
      in
      if n + 1 > SERIES_TAIL (varlist categories) then Inr (None, id_out, type_out)
      else if \<not> IS_OBJECT (FRM_VALUE categories (n + 1)) then Inr (None, id_out, type_out)
      else
        case VAL_OBJ_FRAME (FRM_VALUE categories (n + 1)) of Inl er \<Rightarrow> Inl er | Inr ca \<Rightarrow>
        let category = frames h ca;
            m = unat (code mod 100)
        in
        if m + 3 > SERIES_TAIL (varlist category) then Inr (None, id_out, type_out)
        else if \<not> IS_INTEGER (FRM_VALUE category 1) then Inr (None, id_out, type_out)
        else if \<not> IS_STRING (FRM_VALUE category 2) then Inr (None, id_out, type_out)
        else
          let message = FRM_VALUE category (m + 3);
              type_out' = V_Word REB_WORD
                (TYPESET_SYM_read e (FRM_KEY categories (unat (code div 100) + 1)));
              id_out' = V_Word REB_WORD
                (TYPESET_SYM_read e (FRM_KEY category (unat (code mod 100) + 3)))
          in Inr (Some message, id_out', type_out'))"

section \<open>Making an error from a value (c-error.c)\<close>

text \<open>
  Modelled from the spec: the allocation of a series is defined elsewhere. A new frame
  takes the next free address, and \<^verbatim>\<open>Copy_Array_Shallow\<close> of a frame is a new frame
  with the same keys and a copy of the values.
\<close>

definition alloc_frame :: "heap \<Rightarrow> frame \<Rightarrow> addr \<times> heap" where
  "alloc_frame h f =
     (next_free h, h\<lparr>frames := (frames h)(next_free h := f), next_free := next_free h + 1\<rparr>)"

definition Copy_Array_Shallow :: "heap \<Rightarrow> addr \<Rightarrow> addr \<times> heap" where
  "Copy_Array_Shallow h a = alloc_frame h (frames h a)"

text \<open>
  Modelled from the spec: \<^verbatim>\<open>Find_Word_Index\<close> and \<^verbatim>\<open>Find_Word_Value\<close> are defined
  elsewhere. They are the spec's "linear or indexed lookup by symbol against the keylist",
  from slot 1, with index 0 or \<^verbatim>\<open>NULL\<close> for a symbol that is not there.
\<close>

fun key_matches :: "env \<Rightarrow> sym \<Rightarrow> rebval \<Rightarrow> bool" where
  "key_matches e s (V_Typeset s' b x) = SAME_SYM (SYMBOL_TO_CANON e) s s'"
| "key_matches e s v = False"

fun find_key_from :: "env \<Rightarrow> sym \<Rightarrow> rebval list \<Rightarrow> nat \<Rightarrow> nat" where
  "find_key_from e s [] n = 0"
| "find_key_from e s (k # ks) n = (if key_matches e s k then n else find_key_from e s ks (n + 1))"

definition Find_Word_Index :: "env \<Rightarrow> frame \<Rightarrow> sym \<Rightarrow> nat" where
  "Find_Word_Index e f s = find_key_from e s (tl (keylist f)) 1"

definition Find_Word_Value :: "env \<Rightarrow> frame \<Rightarrow> sym \<Rightarrow> rebval option" where
  "Find_Word_Value e f s =
     (let n = Find_Word_Index e f s in if n = 0 then None else Some (FRM_VALUE f n))"

text \<open>
  Modelled from the spec: \<^verbatim>\<open>Merge_Frames\<close> is defined elsewhere. It is the spec's
  \<open>merge_frames\<close>, which "unions base and overlay fields; overlay's values win on
  symbol collision; the merged frame's self-slot is freshly assigned".
\<close>

definition Merge_Frames :: "env \<Rightarrow> heap \<Rightarrow> addr \<Rightarrow> addr \<Rightarrow> addr \<times> heap" where
  "Merge_Frames e h base overlay =
     (let b = frames h base;
          ov = frames h overlay;
          base_vals = map (\<lambda>(k, v).
              case VAL_TYPESET_SYM k of
                Inl er \<Rightarrow> v
              | Inr s \<Rightarrow> (case Find_Word_Value e ov s of None \<Rightarrow> v | Some w \<Rightarrow> w))
            (zip (tl (keylist b)) (tl (varlist b)));
          extra = filter (\<lambda>(k, v).
              case VAL_TYPESET_SYM k of
                Inl er \<Rightarrow> False
              | Inr s \<Rightarrow> Find_Word_Index e b s = 0)
            (zip (tl (keylist ov)) (tl (varlist ov)))
      in alloc_frame h
           \<lparr>keylist = BLK_SKIP (keylist b) 0 # map fst (zip (tl (keylist b)) (tl (varlist b)))
                         @ map fst extra,
            varlist = V_Obj REB_OBJECT (next_free h) # base_vals @ map snd extra\<rparr>)"

text \<open>Writes through \<^verbatim>\<open>ERR_VALUES(frame)\<close> into the frame at \<open>a\<close>.\<close>

definition set_err_field :: "heap \<Rightarrow> addr \<Rightarrow> nat \<Rightarrow> rebval \<Rightarrow> heap" where
  "set_err_field h a n v =
     h\<lparr>frames := (frames h)(a := (frames h a)\<lparr>varlist := (varlist (frames h a))[n := v]\<rparr>)\<rparr>"

definition set_err_code :: "heap \<Rightarrow> addr \<Rightarrow> rebval \<Rightarrow> heap" where
  "set_err_code h a v = set_err_field h a 1 v"
definition set_err_type :: "heap \<Rightarrow> addr \<Rightarrow> rebval \<Rightarrow> heap" where
  "set_err_type h a v = set_err_field h a 2 v"
definition set_err_id :: "heap \<Rightarrow> addr \<Rightarrow> rebval \<Rightarrow> heap" where
  "set_err_id h a v = set_err_field h a 3 v"
definition set_err_message :: "heap \<Rightarrow> addr \<Rightarrow> rebval \<Rightarrow> heap" where
  "set_err_message h a v = set_err_field h a 4 v"

text \<open>
  The result of \<^verbatim>\<open>Make_Error_Object_Throws\<close>: the returned flag, the cell left in
  \<^verbatim>\<open>out\<close>, and the heap. \<^verbatim>\<open>Val_Init_Error(out, frame); return FALSE;\<close> is:
\<close>

definition Val_Init_Error :: "heap \<Rightarrow> addr \<Rightarrow> error + (bool \<times> rebval \<times> heap)" where
  "Val_Init_Error h frame = Inr (False, V_Obj REB_ERROR frame, h)"

text \<open>
  The validation half of \<^verbatim>\<open>Make_Error_Object_Throws\<close>, first branch: the code field is
  an integer. Below \<^verbatim>\<open>RE_USER\<close> the message must be none, the code must have a template,
  and an id or type that is given must agree with the catalog. The test before the
  comparison of the type reads \<^verbatim>\<open>!IS_WORD(&error_obj->id)\<close>, after the id has been
  overwritten with the catalog's word, so the symbol of the type is read whatever the
  type is.
\<close>

definition validate_coded ::
  "env \<Rightarrow> heap \<Rightarrow> addr \<Rightarrow> rebval \<Rightarrow> 32 word \<Rightarrow> error + (bool \<times> rebval \<times> heap)" where
  "validate_coded e h frame arg code =
     (if sint code < sint RE_USER then
        if \<not> IS_NONE (err_message (frames h frame)) then Inl (RE_INVALID_ERROR arg)
        else
          case Find_Error_For_Code e h V_End V_End code of
            Inl er \<Rightarrow> Inl er
          | Inr (None, cid, ctype) \<Rightarrow> Inl (RE_INVALID_ERROR arg)
          | Inr (Some message, cid, ctype) \<Rightarrow>
              let h1 = set_err_message h frame message in
              if \<not> IS_NONE (err_id (frames h1 frame))
                 \<and> (\<not> IS_WORD (err_id (frames h1 frame))
                      \<or> \<not> SAME_SYM (SYMBOL_TO_CANON e)
                            (WORD_SYM_read e (err_id (frames h1 frame))) (WORD_SYM_read e cid))
              then Inl (RE_INVALID_ERROR arg)
              else
                let h2 = set_err_id h1 frame cid in
                if \<not> IS_NONE (err_type (frames h2 frame))
                   \<and> (\<not> IS_WORD (err_id (frames h2 frame))
                        \<or> \<not> SAME_SYM (SYMBOL_TO_CANON e)
                              (WORD_SYM_read e (err_type (frames h2 frame))) (WORD_SYM_read e ctype))
                then Inl (RE_INVALID_ERROR arg)
                else Val_Init_Error (set_err_type h2 frame ctype) frame
      else Val_Init_Error h frame)"

text \<open>
  Second branch: no integer code, and type and id are both words. A type naming a catalog
  category must come with an id of that category and no message. That the category is an
  object with an integer code is only asserted: its code is read whatever it is, and its
  frame pointer is followed, which is \<open>Bad_Read\<close> when the value holds none.
\<close>

definition validate_named ::
  "env \<Rightarrow> heap \<Rightarrow> addr \<Rightarrow> rebval \<Rightarrow> error + (bool \<times> rebval \<times> heap)" where
  "validate_named e h frame arg =
     (let categories = frames h (CAT_ERRORS e) in
      case Find_Word_Value e categories (WORD_SYM_read e (err_type (frames h frame))) of
        None \<Rightarrow> Val_Init_Error (set_err_code h frame (V_Integer (ucast RE_USER))) frame
      | Some category \<Rightarrow>
          case VAL_OBJ_FRAME category of Inl er \<Rightarrow> Inl er | Inr ca \<Rightarrow>
          let code = INT32_read e (FRM_VALUE (frames h ca) 1) in
          case Find_Word_Value e (frames h ca) (WORD_SYM_read e (err_id (frames h frame))) of
            None \<Rightarrow> Inl (RE_INVALID_ERROR arg)
          | Some message \<Rightarrow>
              if \<not> IS_NONE (err_message (frames h frame)) then Inl (RE_INVALID_ERROR arg)
              else
                let h1 = set_err_message h frame message;
                    n = code
                          + REBCNT_of (Find_Word_Index e (frames h1 frame)
                                         (WORD_SYM_read e (err_id (frames h1 frame))))
                          - REBCNT_of (Find_Word_Index e (frames h1 frame) (SYM_TYPE e)) - 1
                in Val_Init_Error (set_err_code h1 frame (V_Integer (ucast n))) frame)"

text \<open>Third branch: everything else gets the user code, or is refused.\<close>

definition validate_other ::
  "env \<Rightarrow> heap \<Rightarrow> addr \<Rightarrow> rebval \<Rightarrow> error + (bool \<times> rebval \<times> heap)" where
  "validate_other e h frame arg =
     (case (if IS_NONE (err_code (frames h frame))
            then Inr (set_err_code h frame (V_Integer (ucast RE_USER)))
            else if IS_INTEGER (err_code (frames h frame)) then
              (if INT32_read e (err_code (frames h frame)) \<noteq> RE_USER
               then Inl (RE_INVALID_ERROR arg) else Inr h)
            else Inl (RE_INVALID_ERROR arg)) of
        Inl er \<Rightarrow> Inl er
      | Inr h1 \<Rightarrow>
          let ob = frames h1 frame in
          if \<not> (IS_WORD (err_id ob) \<or> IS_NONE (err_id ob))
             \<or> \<not> (IS_WORD (err_type ob) \<or> IS_NONE (err_type ob))
             \<or> \<not> (IS_BLOCK (err_message ob) \<or> IS_STRING (err_message ob)
                    \<or> IS_NONE (err_message ob))
          then Inl (RE_INVALID_ERROR arg)
          else Val_Init_Error h1 frame)"

definition validate_error ::
  "env \<Rightarrow> heap \<Rightarrow> addr \<Rightarrow> rebval \<Rightarrow> error + (bool \<times> rebval \<times> heap)" where
  "validate_error e h frame arg =
     (if IS_INTEGER (err_code (frames h frame)) then
        validate_coded e h frame arg (INT32_read e (err_code (frames h frame)))
      else if IS_WORD (err_type (frames h frame)) \<and> IS_WORD (err_id (frames h frame))
      then validate_named e h frame arg
      else validate_other e h frame arg)"

text \<open>
  \<^verbatim>\<open>Make_Error_Object_Throws(out, arg)\<close>, release build (the legacy arg1/arg2/arg3 frame
  is debug-only). Words carry no binding in this model, so \<^verbatim>\<open>Rebind_Frame\<close> and
  \<^verbatim>\<open>Bind_Values_Deep\<close> leave nothing to do beyond handing the new frame to the
  evaluator. A failure inside the evaluation of the block leaves the routine as it left
  the evaluator.
\<close>

definition Make_Error_Object_Throws ::
  "env \<Rightarrow> heap \<Rightarrow> rebval \<Rightarrow> error + (bool \<times> rebval \<times> heap)" where
  "Make_Error_Object_Throws e h arg =
     (let root_frame = ROOT_ERROBJ e in
      if IS_ERROR arg \<or> IS_OBJECT arg then
        (case VAL_OBJ_FRAME arg of
           Inl er \<Rightarrow> Inl er
         | Inr a \<Rightarrow>
             let (frame, h1) = Merge_Frames e h root_frame a
             in validate_error e h1 frame arg)
      else if IS_BLOCK arg then
        (case arg of
           V_Array k data \<Rightarrow>
             let (frame, h1) = Make_Object e h root_frame data
             in (case DO_ARRAY_THROWS e h1 frame arg of
                   Inl er \<Rightarrow> Inl er
                 | Inr (thrown, evaluated, h2) \<Rightarrow>
                     if thrown then Inr (True, evaluated, h2)
                     else validate_error e h2 frame arg)
         | _ \<Rightarrow> Inl Bad_Read)
      else if IS_STRING arg then
        (case arg of
           V_BinStr k s \<Rightarrow>
             let (frame, h1) = Copy_Array_Shallow h root_frame;
                 h2 = set_err_message h1 frame (V_BinStr REB_STRING s)
             in validate_error e h2 frame arg
         | _ \<Rightarrow> Inl Bad_Read)
      else Inl (RE_INVALID_ERROR arg))"

section \<open>Parameter lists (c-function.c)\<close>

text \<open>
  What \<^verbatim>\<open>c-function.c\<close> takes from elsewhere: the canon form of a symbol, the symbols
  \<^verbatim>\<open>SYM_CATCH\<close>, \<^verbatim>\<open>SYM_THROW\<close> and \<^verbatim>\<open>SYM_RETURN\<close>, the type bits a fresh key starts
  with, the bits \<^verbatim>\<open>FLAGIT_64(REB_WORD) | FLAGIT_64(REB_NONE)\<close> of a refinement, the bits
  \<^verbatim>\<open>Make_Typeset\<close> computes from a block of types (or its failure), the comparison
  \<^verbatim>\<open>0 == Compare_String_Vals(a, b, TRUE)\<close> of two tags, and the text of the three root
  tags.
\<close>

record fenv =
  FN_CANON :: "sym \<Rightarrow> sym"
  SYM_CATCH :: sym
  SYM_THROW :: sym
  SYM_RETURN :: sym
  KEY_BITS :: "64 word"
  REFINEMENT_BITS :: "64 word"
  TYPESET_BITS :: "rebval list \<Rightarrow> error + 64 word"
  TAG_EQUAL :: "string \<Rightarrow> string \<Rightarrow> bool"
  ROOT_TRANSPARENT_TAG :: string
  ROOT_INFIX_TAG :: string
  ROOT_LOCAL_TAG :: string

definition SYM_0 :: sym where
  "SYM_0 = 0"

text \<open>
  Modelled from the spec: \<^verbatim>\<open>Collect_Keylist_Managed\<close> is defined elsewhere. The spec's
  \<open>collect_keylist\<close> "builds a deduplicated symbol-tagged keylist from a list of
  word-bearing elements; violates (fails) on duplicate symbols if the dup policy forbids
  them", and the call here asks it to "scan for words (BIND_ALL) and error on duplicates
  (BIND_NO_DUP)": one key per word of the block, in order, after the reserved slot 0,
  and a failure on a word whose canon symbol has been seen.
\<close>

fun key_canons :: "fenv \<Rightarrow> rebval list \<Rightarrow> sym list" where
  "key_canons fe [] = []"
| "key_canons fe (V_Typeset s b x # ks) = FN_CANON fe s # key_canons fe ks"
| "key_canons fe (k # ks) = key_canons fe ks"

fun Collect_Keylist_loop :: "fenv \<Rightarrow> rebval list \<Rightarrow> rebval list \<Rightarrow> error + rebval list" where
  "Collect_Keylist_loop fe [] keys = Inr keys"
| "Collect_Keylist_loop fe (V_Word k s # items) keys =
     (if FN_CANON fe s \<in> set (key_canons fe keys) then Inl (RE_DUP_VARS (V_Word k s))
      else Collect_Keylist_loop fe items (keys @ [V_Typeset s (KEY_BITS fe) {}]))"
| "Collect_Keylist_loop fe (item # items) keys = Collect_Keylist_loop fe items keys"

definition Collect_Keylist_Managed :: "fenv \<Rightarrow> rebval list \<Rightarrow> error + rebval list" where
  "Collect_Keylist_Managed fe spec =
     (case Collect_Keylist_loop fe spec [] of
        Inl er \<Rightarrow> Inl er
      | Inr keys \<Rightarrow> Inr (V_Unset # keys))"

fun VAL_SET_EXT :: "rebval \<Rightarrow> ts_ext \<Rightarrow> rebval" where
  "VAL_SET_EXT (V_Typeset s b x) f = V_Typeset s b (insert f x)"
| "VAL_SET_EXT v f = v"

fun VAL_TYPESET_CANON :: "fenv \<Rightarrow> rebval \<Rightarrow> error + sym" where
  "VAL_TYPESET_CANON fe (V_Typeset s b x) = Inr (FN_CANON fe s)"
| "VAL_TYPESET_CANON fe v = Inl Bad_Read"

text \<open>
  Modelled from the spec: \<^verbatim>\<open>Make_Typeset\<close> is defined elsewhere. A block after a
  parameter word is "converted into a type-set bitmask on that parameter", and the comment
  at the call adds that it "leaves VAL_TYPESET_SYM as-is": the bits of the key are
  replaced by those of the block, or the block is refused.
\<close>

fun Make_Typeset :: "fenv \<Rightarrow> rebval list \<Rightarrow> rebval \<Rightarrow> error + rebval" where
  "Make_Typeset fe blk (V_Typeset s b x) =
     (case TYPESET_BITS fe blk of Inl er \<Rightarrow> Inl er | Inr bits \<Rightarrow> Inr (V_Typeset s bits x))"
| "Make_Typeset fe blk v = Inl Bad_Read"

text \<open>
  The block before any parameter: \<^verbatim>\<open>[catch]\<close> and \<^verbatim>\<open>[throw]\<close> are let through, anything
  else in it is an error.
\<close>

fun legacy_attributes :: "fenv \<Rightarrow> rebval list \<Rightarrow> bool" where
  "legacy_attributes fe [] = True"
| "legacy_attributes fe (V_Word REB_WORD s # as) =
     (if s = SYM_CATCH fe then legacy_attributes fe as
      else if s = SYM_THROW fe then legacy_attributes fe as
      else False)"
| "legacy_attributes fe (a # as) = False"

text \<open>The \<^verbatim>\<open>switch (VAL_TYPE(item))\<close> on the kind of the parameter word.\<close>

fun set_param_class :: "fenv \<Rightarrow> rebval \<Rightarrow> word_kind \<Rightarrow> rebval \<Rightarrow> error + rebval" where
  "set_param_class fe item REB_WORD t = Inr (VAL_SET_EXT t EXT_TYPESET_EVALUATE)"
| "set_param_class fe item REB_GET_WORD t = Inr (VAL_SET_EXT t EXT_TYPESET_QUOTE)"
| "set_param_class fe item REB_LIT_WORD t =
     Inr (VAL_SET_EXT (VAL_SET_EXT t EXT_TYPESET_QUOTE) EXT_TYPESET_EVALUATE)"
| "set_param_class fe item REB_REFINEMENT t =
     (case VAL_SET_EXT t EXT_TYPESET_REFINEMENT of
        V_Typeset s b x \<Rightarrow> Inr (V_Typeset s (REFINEMENT_BITS fe) x)
      | v \<Rightarrow> Inl Bad_Read)"
| "set_param_class fe item REB_SET_WORD t = Inr (VAL_SET_EXT t EXT_TYPESET_HIDDEN)"
| "set_param_class fe item REB_ISSUE t = Inl (RE_BAD_FUNC_DEF item)"

text \<open>
  The loop over the spec. \<open>ts\<close> is the index the pointer \<^verbatim>\<open>typeset\<close> is at in the
  parameter list, \<open>bubble\<close> the cell held back for the last slot (the end marker while
  none is held).
\<close>

fun Make_Paramlist_loop ::
  "fenv \<Rightarrow> sym \<Rightarrow> rebval list \<Rightarrow> rebval list \<Rightarrow> nat \<Rightarrow> rebval
     \<Rightarrow> error + (rebval list \<times> nat \<times> rebval)" where
  "Make_Paramlist_loop fe opt_sym_last [] pl ts bubble = Inr (pl, ts, bubble)"
| "Make_Paramlist_loop fe opt_sym_last (item # items) pl ts bubble =
     (case item of
        V_BinStr k s \<Rightarrow> Make_Paramlist_loop fe opt_sym_last items pl ts bubble
      | V_Array REB_BLOCK blk \<Rightarrow>
          if ts \<noteq> 0 then
            (case Make_Typeset fe blk (BLK_SKIP pl ts) of
               Inl er \<Rightarrow> Inl er
             | Inr t \<Rightarrow> Make_Paramlist_loop fe opt_sym_last items (pl[ts := t]) ts bubble)
          else if legacy_attributes fe blk
          then Make_Paramlist_loop fe opt_sym_last items pl ts bubble
          else Inl (RE_BAD_FUNC_DEF item)
      | V_Word k s \<Rightarrow>
          (case set_param_class fe item k (BLK_SKIP pl (ts + 1)) of
             Inl er \<Rightarrow> Inl er
           | Inr t \<Rightarrow>
               (case VAL_TYPESET_CANON fe t of
                  Inl er \<Rightarrow> Inl er
                | Inr c \<Rightarrow>
                    if c = opt_sym_last
                    then Make_Paramlist_loop fe opt_sym_last items (pl[ts + 1 := t]) (ts + 1) t
                    else if \<not> IS_END bubble
                    then Make_Paramlist_loop fe opt_sym_last items
                           (pl[ts + 1 := t, ts := t]) (ts + 1) bubble
                    else Make_Paramlist_loop fe opt_sym_last items (pl[ts + 1 := t]) (ts + 1)
                           bubble))
      | _ \<Rightarrow> Inl (RE_BAD_FUNC_DEF item))"

definition Make_Paramlist_Managed :: "fenv \<Rightarrow> rebval list \<Rightarrow> sym \<Rightarrow> error + rebval list" where
  "Make_Paramlist_Managed fe spec opt_sym_last =
     (case Collect_Keylist_Managed fe spec of
        Inl er \<Rightarrow> Inl er
      | Inr paramlist \<Rightarrow>
          (case Make_Paramlist_loop fe opt_sym_last spec paramlist 0 V_End of
             Inl er \<Rightarrow> Inl er
           | Inr (pl, ts, bubble) \<Rightarrow>
               Inr (if opt_sym_last \<noteq> SYM_0 then pl[ts := bubble] else pl)))"

text \<open>The declared parameters of a spec, and a key reduced to its symbol and flags.\<close>

definition spec_words :: "rebval list \<Rightarrow> rebval list" where
  "spec_words spec = filter ANY_WORD spec"

fun word_key :: "rebval \<Rightarrow> sym \<times> ts_ext set" where
  "word_key (V_Word REB_WORD s) = (s, {EXT_TYPESET_EVALUATE})"
| "word_key (V_Word REB_GET_WORD s) = (s, {EXT_TYPESET_QUOTE})"
| "word_key (V_Word REB_LIT_WORD s) = (s, {EXT_TYPESET_QUOTE, EXT_TYPESET_EVALUATE})"
| "word_key (V_Word REB_REFINEMENT s) = (s, {EXT_TYPESET_REFINEMENT})"
| "word_key (V_Word REB_SET_WORD s) = (s, {EXT_TYPESET_HIDDEN})"
| "word_key (V_Word REB_ISSUE s) = (s, {})"
| "word_key v = (SYM_0, {})"

fun typeset_key :: "rebval \<Rightarrow> sym \<times> ts_ext set" where
  "typeset_key (V_Typeset s b x) = (s, x)"
| "typeset_key v = (SYM_0, {})"

definition names_sym :: "fenv \<Rightarrow> sym \<Rightarrow> rebval \<Rightarrow> bool" where
  "names_sym fe c w = (FN_CANON fe (fst (word_key w)) = c)"

text \<open>
  The invariant of the loop of \<^verbatim>\<open>Make_Paramlist_Managed\<close>, for the proofs: \<open>cur\<close> is the
  part of the parameter list behind slot 0 that the loop has passed, \<open>ws\<close> the words it
  has seen. Either no cell is held back and the passed keys are those of the words seen,
  none of which names the bubble symbol; or the key of the one word naming it is held
  back, and the passed keys but the last are those of the other words seen.
\<close>

definition fresh_key :: "fenv \<Rightarrow> rebval \<Rightarrow> rebval" where
  "fresh_key fe w = V_Typeset (fst (word_key w)) (KEY_BITS fe) {}"

definition bubble_inv :: "fenv \<Rightarrow> sym \<Rightarrow> rebval list \<Rightarrow> rebval \<Rightarrow> rebval list \<Rightarrow> bool" where
  "bubble_inv fe c cur bubble ws =
     ((bubble = V_End \<and> map typeset_key cur = map word_key ws
         \<and> filter (names_sym fe c) ws = [])
      \<or> (\<exists>ws1 bw ws2 s b x.
            ws = ws1 @ bw # ws2 \<and> names_sym fe c bw \<and> bubble = V_Typeset s b x
            \<and> (s, x) = word_key bw \<and> cur \<noteq> []
            \<and> map typeset_key (butlast cur) = map word_key (ws1 @ ws2)))"

section \<open>Making a function (c-function.c)\<close>

datatype fn_kind = REB_FUNCTION | REB_CLOSURE

datatype fn_flag = EXT_FUNC_INFIX | EXT_FUNC_HAS_RETURN

text \<open>
  The function value written to \<^verbatim>\<open>out\<close>: its kind, the spec and body it owns, its
  parameter list and its flags. Blocks are taken at their head, so a copy of a block
  from its index is the block.
\<close>

record func =
  func_kind :: fn_kind
  func_spec :: "rebval list"
  func_paramlist :: "rebval list"
  func_body :: "rebval list"
  func_exts :: "fn_flag set"

definition ROOT_RETURN_SET_WORD :: "fenv \<Rightarrow> rebval" where
  "ROOT_RETURN_SET_WORD fe = V_Word REB_SET_WORD (SYM_RETURN fe)"

definition ROOT_RETURN_BLOCK :: "fenv \<Rightarrow> rebval list" where
  "ROOT_RETURN_BLOCK fe = [ROOT_RETURN_SET_WORD fe]"

text \<open>
  The scan of the spec made for FUNC and CLOS (\<^verbatim>\<open>has_return\<close> passed as TRUE). The
  caller's array is \<open>seen @ items\<close>: the loop is at the head of \<open>items\<close> and has
  rewritten \<open>seen\<close> in place. The state is \<^verbatim>\<open>convert_local\<close>, \<^verbatim>\<open>has_return\<close>, the flags,
  and \<^verbatim>\<open>VAL_FUNC_SPEC(out)\<close> once it has been assigned. A set-word is passed over before
  any other test.
\<close>

fun Make_Function_scan ::
  "fenv \<Rightarrow> rebval list \<Rightarrow> rebval list \<Rightarrow> bool \<Rightarrow> bool \<Rightarrow> fn_flag set \<Rightarrow> rebval list option
     \<Rightarrow> error + (rebval list \<times> bool \<times> fn_flag set \<times> rebval list option)" where
  "Make_Function_scan fe seen [] convert_local has_return flags fspec =
     Inr (seen, has_return, flags, fspec)"
| "Make_Function_scan fe seen (item # items) convert_local has_return flags fspec =
     (if IS_SET_WORD item
      then Make_Function_scan fe (seen @ [item]) items convert_local has_return flags fspec
      else
        case item of
          V_BinStr REB_TAG s \<Rightarrow>
            if TAG_EQUAL fe s (ROOT_TRANSPARENT_TAG fe)
            then Make_Function_scan fe (seen @ [item]) items convert_local False flags
                   (Some (seen @ item # items))
            else if TAG_EQUAL fe s (ROOT_INFIX_TAG fe)
            then Make_Function_scan fe (seen @ [item]) items convert_local has_return
                   (insert EXT_FUNC_INFIX flags) fspec
            else if TAG_EQUAL fe s (ROOT_LOCAL_TAG fe)
            then Make_Function_scan fe (seen @ [item]) items True has_return flags fspec
            else Inl (RE_BAD_FUNC_DEF item)
        | V_Word k s \<Rightarrow>
            (case (if convert_local then
                     if IS_WORD item then Inr (V_Word REB_SET_WORD s, True)
                     else if IS_REFINEMENT item then Inr (item, False)
                     else Inl (RE_BAD_FUNC_DEF item)
                   else Inr (item, convert_local)) of
               Inl er \<Rightarrow> Inl er
             | Inr (item', convert_local') \<Rightarrow>
                 if SAME_SYM (FN_CANON fe) s (SYM_RETURN fe)
                 then Make_Function_scan fe (seen @ [item']) items convert_local' False flags
                        (Some (seen @ item' # items))
                 else Make_Function_scan fe (seen @ [item']) items convert_local' has_return
                        flags fspec)
        | _ \<Rightarrow> Make_Function_scan fe (seen @ [item]) items convert_local has_return flags fspec)"

text \<open>
  The spec the function gets: for \<^verbatim>\<open>make function!\<close> a copy of the block; for FUNC and
  CLOS the result of the scan, with \<^verbatim>\<open>return:\<close> appended while \<^verbatim>\<open>has_return\<close> still holds.
\<close>

definition Make_Function_spec ::
  "fenv \<Rightarrow> rebval list \<Rightarrow> bool \<Rightarrow> error + (rebval list \<times> bool \<times> fn_flag set)" where
  "Make_Function_spec fe spec has_return =
     (if \<not> has_return then Inr (spec, False, {})
      else
        case Make_Function_scan fe [] spec False has_return {} None of
          Inl er \<Rightarrow> Inl er
        | Inr (spec', has_return', flags, fspec) \<Rightarrow>
            if has_return' then
              (if length spec' = 0 then Inr (ROOT_RETURN_BLOCK fe, True, flags)
               else Inr (spec' @ [ROOT_RETURN_SET_WORD fe], True, flags))
            else
              (case fspec of
                 None \<Rightarrow> Inl Bad_Read
               | Some sp \<Rightarrow> Inr (sp, False, flags)))"

text \<open>
  \<^verbatim>\<open>Make_Function(out, type, spec, body, has_return)\<close>, release build. A function value
  is not a cell of this model, so slot 0 of the parameter list stays as it was collected,
  and the relative binding of the body, which changes no spec and no parameter, is left
  out. A spec or body that is no block fails with \<^verbatim>\<open>Error_Bad_Func_Def(spec, body)\<close>,
  whose argument is the block of the two.
\<close>

definition Make_Function ::
  "fenv \<Rightarrow> fn_kind \<Rightarrow> rebval \<Rightarrow> rebval \<Rightarrow> bool \<Rightarrow> error + func" where
  "Make_Function fe type spec body has_return =
     (case (spec, body) of
        (V_Array REB_BLOCK sp, V_Array REB_BLOCK bd) \<Rightarrow>
          (case Make_Function_spec fe sp has_return of
             Inl er \<Rightarrow> Inl er
           | Inr (fspec, has_return', flags) \<Rightarrow>
               (case Make_Paramlist_Managed fe fspec
                       (if has_return' then SYM_RETURN fe else SYM_0) of
                  Inl er \<Rightarrow> Inl er
                | Inr paramlist \<Rightarrow>
                    Inr \<lparr>func_kind = type, func_spec = fspec, func_paramlist = paramlist,
                         func_body = bd,
                         func_exts = (if has_return' then insert EXT_FUNC_HAS_RETURN flags
                                      else flags)\<rparr>))
      | _ \<Rightarrow> Inl (RE_BAD_FUNC_DEF (V_Array REB_BLOCK [spec, body])))"

section \<open>Traps (c-error.c)\<close>

text \<open>
  A call frame (\<^verbatim>\<open>struct Reb_Call\<close>) is its address with the frame its \<^verbatim>\<open>prior\<close> field
  points to; a pointer to a call frame is \<open>None\<close> for \<^verbatim>\<open>NULL\<close>, and two pointers are
  compared by address.
\<close>

datatype reb_call = Reb_Call (call_addr: addr) (prior: "reb_call option")

definition call_ptr :: "reb_call option \<Rightarrow> addr option" where
  "call_ptr c = map_option call_addr c"

text \<open>The saved state (\<^verbatim>\<open>REBOL_STATE\<close>), with the state its \<^verbatim>\<open>last_state\<close> points to.\<close>

datatype reb_state =
  Reb_State (s_dsp: int) (s_dsf: "reb_call option") (s_series_guard_tail: nat)
    (s_value_guard_tail: nat) (s_gc_disable: int) (s_manuals_tail: nat)
    (s_last_state: "reb_state option") (s_error_frame: "addr option")

text \<open>A series of pointers, as the guard stacks and the list of manual series are.\<close>

record rebser =
  ser_tail :: nat
  ser_data :: "nat \<Rightarrow> addr"

text \<open>
  The globals the trap code reads and writes. \<^verbatim>\<open>DSF\<close> is the running call frame,
  \<^verbatim>\<open>CS_Top\<close> the top of the call stack. \<open>freed_calls\<close> and \<open>freed_series\<close> record what
  \<^verbatim>\<open>Free_Call\<close> and \<^verbatim>\<open>Free_Series\<close> have released.
\<close>

record globals =
  DSP :: int
  DSF :: "reb_call option"
  CS_Top :: "reb_call option"
  GC_Series_Guard :: rebser
  GC_Value_Guard :: rebser
  GC_Manuals :: rebser
  GC_Disabled :: int
  Saved_State :: "reb_state option"
  TASK_THROWN_ARG :: rebval
  mem :: heap
  freed_calls :: "addr set"
  freed_series :: "addr set"

text \<open>
  \<^verbatim>\<open>Push_Trap_Helper(s)\<close> fills the state \<^verbatim>\<open>s\<close> of the trap from the globals, links it to
  the saved state so far and makes it the saved state, with no error yet.
\<close>

definition Push_Trap_Helper :: "globals \<Rightarrow> globals" where
  "Push_Trap_Helper g =
     g\<lparr>Saved_State := Some (Reb_State (DSP g) (DSF g) (ser_tail (GC_Series_Guard g))
          (ser_tail (GC_Value_Guard g)) (GC_Disabled g) (ser_tail (GC_Manuals g))
          (Saved_State g) None)\<rparr>"

text \<open>
  Modelled from the spec: \<^verbatim>\<open>Free_Call\<close> is defined elsewhere. The spec has call frames
  linked to the calling frame so that "frames [can] be released independently as a trap
  unwinds": the frame is released and the top of the call stack drops to its prior.
\<close>

definition Free_Call :: "reb_call \<Rightarrow> globals \<Rightarrow> globals" where
  "Free_Call c g = g\<lparr>CS_Top := prior c, freed_calls := insert (call_addr c) (freed_calls g)\<rparr>"

text \<open>
  Modelled from the spec: \<^verbatim>\<open>Free_Series\<close> is defined elsewhere. The spec keeps manual
  series in a rollback list until they are "explicitly freed", and the comment at the
  call says "Freeing the series will update the tail": the series is released and taken
  out of \<^verbatim>\<open>GC_Manuals\<close>, the last entry moving into its place when it is not the last.
\<close>

fun find_manual :: "(nat \<Rightarrow> addr) \<Rightarrow> addr \<Rightarrow> nat \<Rightarrow> nat option" where
  "find_manual d s 0 = None"
| "find_manual d s (Suc n) = (if d n = s then Some n else find_manual d s n)"

definition Free_Series :: "addr \<Rightarrow> globals \<Rightarrow> error + globals" where
  "Free_Series s g =
     (let m = GC_Manuals g; t = ser_tail m in
      case find_manual (ser_data m) s t of
        None \<Rightarrow> Inl Bad_Read
      | Some i \<Rightarrow>
          Inr (g\<lparr>GC_Manuals := \<lparr>ser_tail = t - 1,
                                   ser_data = (ser_data m)(i := ser_data m (t - 1))\<rparr>,
                  freed_series := insert s (freed_series g)\<rparr>))"

text \<open>
  The first loop of \<^verbatim>\<open>Trapped_Helper_Halted\<close>: free call frames from \<^verbatim>\<open>call\<close> down until
  the pointer equals \<^verbatim>\<open>state->dsf\<close>. Running off the end of the chain reads
  \<^verbatim>\<open>call->prior\<close> through a null pointer.
\<close>

fun free_calls :: "addr option \<Rightarrow> reb_call option \<Rightarrow> globals \<Rightarrow> error + globals" where
  "free_calls dsf None g = (if dsf = None then Inr g else Inl Bad_Read)"
| "free_calls dsf (Some (Reb_Call a p)) g =
     (if Some a = dsf then Inr g else free_calls dsf p (Free_Call (Reb_Call a p) g))"

text \<open>
  The second loop: free the last manual series until the tail is the saved one. A tail
  already below the saved one (the assertion before the loop) never meets it.
\<close>

function free_manuals :: "nat \<Rightarrow> globals \<Rightarrow> error + globals" where
  "free_manuals manuals_tail g =
     (if ser_tail (GC_Manuals g) = manuals_tail then Inr g
      else if ser_tail (GC_Manuals g) < manuals_tail then Inl Bad_Read
      else
        case Free_Series (ser_data (GC_Manuals g) (ser_tail (GC_Manuals g) - 1)) g of
          Inl er \<Rightarrow> Inl er
        | Inr g' \<Rightarrow> free_manuals manuals_tail g')"
  by pat_completeness auto
termination
  by (relation "measure (\<lambda>(mt, g). ser_tail (GC_Manuals g))")
    (auto simp: Free_Series_def Let_def split: option.splits)

declare free_manuals.simps [simp del]

text \<open>
  \<^verbatim>\<open>Trapped_Helper_Halted(state)\<close>: what runs where the \<^verbatim>\<open>setjmp\<close> of the trap returns
  after a \<^verbatim>\<open>longjmp\<close>. \<open>re_halt\<close> is the code \<^verbatim>\<open>RE_HALT\<close>.
\<close>

definition Trapped_Helper_Halted ::
  "32 word \<Rightarrow> reb_state \<Rightarrow> globals \<Rightarrow> error + (bool \<times> globals)" where
  "Trapped_Helper_Halted re_halt state g =
     (case s_error_frame state of
        None \<Rightarrow> Inl Bad_Read
      | Some ef \<Rightarrow>
          case ERR_NUM (frames (mem g) ef) of
            Inl er \<Rightarrow> Inl er
          | Inr num \<Rightarrow>
              let halted = (num = re_halt) in
              case free_calls (call_ptr (s_dsf state)) (CS_Top g) g of
                Inl er \<Rightarrow> Inl er
              | Inr g1 \<Rightarrow>
                  let g2 = g1\<lparr>DSF := s_dsf state\<rparr>;
                      g3 = g2\<lparr>DSP := s_dsp state\<rparr>
                  in
                  case free_manuals (s_manuals_tail state) g3 of
                    Inl er \<Rightarrow> Inl er
                  | Inr g4 \<Rightarrow>
                      Inr (halted,
                           g4\<lparr>GC_Series_Guard :=
                                 (GC_Series_Guard g4)\<lparr>ser_tail := s_series_guard_tail state\<rparr>,
                               GC_Value_Guard :=
                                 (GC_Value_Guard g4)\<lparr>ser_tail := s_value_guard_tail state\<rparr>,
                               GC_Disabled := s_gc_disable state,
                               Saved_State := s_last_state state\<rparr>))"

text \<open>
  \<^verbatim>\<open>Fail_Core(frame)\<close> up to its \<^verbatim>\<open>LONG_JUMP\<close>: with no saved state it panics; otherwise
  it stores the error in the innermost saved state and trashes the thrown argument.
  \<open>fail_trapped\<close> is the jump resolved: the trap whose state that is runs
  \<^verbatim>\<open>Trapped_Helper_Halted\<close> on it.
\<close>

definition Fail_Core :: "globals \<Rightarrow> addr \<Rightarrow> error + globals" where
  "Fail_Core g frame =
     (case Saved_State g of
        None \<Rightarrow> Inl Panic
      | Some (Reb_State sp sf sgt vgt dis mt ls ef) \<Rightarrow>
          Inr (g\<lparr>Saved_State := Some (Reb_State sp sf sgt vgt dis mt ls (Some frame)),
                  TASK_THROWN_ARG := V_Unset\<rparr>))"

definition fail_trapped :: "32 word \<Rightarrow> globals \<Rightarrow> addr \<Rightarrow> error + (bool \<times> globals)" where
  "fail_trapped re_halt g frame =
     (case Fail_Core g frame of
        Inl er \<Rightarrow> Inl er
      | Inr g' \<Rightarrow>
          case Saved_State g' of
            None \<Rightarrow> Inl Panic
          | Some state \<Rightarrow> Trapped_Helper_Halted re_halt state g')"

text \<open>
  Modelled from the spec: what may happen between the push of a trap and a failure, as
  the spec's rollback lists have it: a manual series is allocated and entered at the tail
  of \<^verbatim>\<open>GC_Manuals\<close>; a call frame is pushed on the call stack, and may start running
  (\<^verbatim>\<open>SET_DSF\<close>); a series or a value is pushed on its guard stack; a value is pushed on
  the data stack.
\<close>

definition ser_push :: "rebser \<Rightarrow> addr \<Rightarrow> rebser" where
  "ser_push s a = \<lparr>ser_tail = ser_tail s + 1, ser_data = (ser_data s)(ser_tail s := a)\<rparr>"

datatype trap_op =
    Op_Make_Series addr
  | Op_Make_Call addr
  | Op_Set_DSF
  | Op_Guard_Series addr
  | Op_Guard_Value addr
  | Op_DS_Push

fun apply_op :: "globals \<Rightarrow> trap_op \<Rightarrow> globals" where
  "apply_op g (Op_Make_Series a) = g\<lparr>GC_Manuals := ser_push (GC_Manuals g) a\<rparr>"
| "apply_op g (Op_Make_Call a) = g\<lparr>CS_Top := Some (Reb_Call a (CS_Top g))\<rparr>"
| "apply_op g Op_Set_DSF = g\<lparr>DSF := CS_Top g\<rparr>"
| "apply_op g (Op_Guard_Series a) = g\<lparr>GC_Series_Guard := ser_push (GC_Series_Guard g) a\<rparr>"
| "apply_op g (Op_Guard_Value a) = g\<lparr>GC_Value_Guard := ser_push (GC_Value_Guard g) a\<rparr>"
| "apply_op g Op_DS_Push = g\<lparr>DSP := DSP g + 1\<rparr>"

definition run_ops :: "globals \<Rightarrow> trap_op list \<Rightarrow> globals" where
  "run_ops g ops = foldl apply_op g ops"

fun call_chain :: "reb_call option \<Rightarrow> addr list" where
  "call_chain None = []"
| "call_chain (Some (Reb_Call a p)) = a # call_chain p"

fun made_calls :: "trap_op list \<Rightarrow> addr list" where
  "made_calls [] = []"
| "made_calls (Op_Make_Call a # ops) = a # made_calls ops"
| "made_calls (x # ops) = made_calls ops"

fun made_series :: "trap_op list \<Rightarrow> addr list" where
  "made_series [] = []"
| "made_series (Op_Make_Series a # ops) = a # made_series ops"
| "made_series (x # ops) = made_series ops"

section \<open>A small boot image\<close>

text \<open>
  Boot data in the shape the loader leaves it, for evaluating the code on concrete
  inputs. Symbols: code 1, type 2, id 3, message 4, where 5, near 6, special 50, null 51,
  halt 52, internal 53, stack-overflow 54, misc 55, user 60, throw 70, fail 71; a symbol and its
  other spellings share the canon \<open>s mod 100\<close>. The catalog frame is at 10 with the
  categories Special (codes from 0, frame 11) and Internal (codes from 100, frame 12);
  the root error object is at 13, with the defaults the comment in
  \<^verbatim>\<open>Make_Error_Object_Throws\<close> gives it: no code, type \<^verbatim>\<open>'user\<close>, id \<^verbatim>\<open>'message\<close>,
  no message. The evaluator of the image throws the integer 42 on the block
  \<^verbatim>\<open>[throw]\<close>, fails with the error 300 on the block \<^verbatim>\<open>[fail]\<close>, and otherwise leaves
  the frame as it is; a field that a cell does not hold reads as zero.
\<close>

definition boot_frames :: "addr \<Rightarrow> frame" where
  "boot_frames a =
     (if a = 10 then
        \<lparr>keylist = [V_End, V_Typeset 50 0 {}, V_Typeset 53 0 {}],
         varlist = [V_Unset, V_Obj REB_OBJECT 11, V_Obj REB_OBJECT 12]\<rparr>
      else if a = 11 then
        \<lparr>keylist = [V_End, V_Typeset 1 0 {}, V_Typeset 2 0 {}, V_Typeset 51 0 {},
                    V_Typeset 52 0 {}],
         varlist = [V_Unset, V_Integer 0, V_BinStr REB_STRING ''special'',
                    V_BinStr REB_STRING ''invalid error code zero'',
                    V_Array REB_BLOCK [V_BinStr REB_STRING ''halted by user or script'']]\<rparr>
      else if a = 12 then
        \<lparr>keylist = [V_End, V_Typeset 1 0 {}, V_Typeset 2 0 {}, V_Typeset 54 0 {},
                    V_Typeset 55 0 {}],
         varlist = [V_Unset, V_Integer 100, V_BinStr REB_STRING ''internal'',
                    V_BinStr REB_STRING ''stack overflow'',
                    V_BinStr REB_STRING ''RE_MISC error (if actually happens, add to %errors.r)'']\<rparr>
      else if a = 13 then
        \<lparr>keylist = [V_End, V_Typeset 1 0 {}, V_Typeset 2 0 {}, V_Typeset 3 0 {},
                    V_Typeset 4 0 {}, V_Typeset 5 0 {}, V_Typeset 6 0 {}],
         varlist = [V_Unset, V_None, V_Word REB_WORD 60, V_Word REB_WORD 4, V_None,
                    V_None, V_None]\<rparr>
      else \<lparr>keylist = [V_End], varlist = [V_Unset]\<rparr>)"

definition boot_heap :: heap where
  "boot_heap = \<lparr>frames = boot_frames, next_free = 20\<rparr>"

definition boot_env :: env where
  "boot_env =
     \<lparr>SYMBOL_TO_CANON = (\<lambda>s. s mod 100), CAT_ERRORS = 10, ROOT_ERROBJ = 13, SYM_TYPE = 2,
      Make_Object = (\<lambda>h a b. Copy_Array_Shallow h a),
      DO_ARRAY_THROWS =
        (\<lambda>h a v. if v = V_Array REB_BLOCK [V_Word REB_WORD 71] then Inl (RE_OTHER 300)
                  else Inr (v = V_Array REB_BLOCK [V_Word REB_WORD 70], V_Integer 42, h)),
      WORD_SYM_BITS = (\<lambda>v. 0), TYPESET_SYM_BITS = (\<lambda>v. 0), INT32_BITS = (\<lambda>v. 0)\<rparr>"

text \<open>
  Two objects handed to MAKE ERROR! on that image, both with \<^verbatim>\<open>code: 100\<close>, the code of
  \<^verbatim>\<open>stack-overflow\<close> in the category \<^verbatim>\<open>internal\<close>. The first gives the type as the
  set-word \<^verbatim>\<open>internal:\<close> and the id as the word \<^verbatim>\<open>stack-overflow\<close>; the second gives the
  type as the word \<^verbatim>\<open>internal\<close> and the id as the set-word \<^verbatim>\<open>stack-overflow:\<close>.
\<close>

definition set_word_type_heap :: heap where
  "set_word_type_heap =
     \<lparr>frames = boot_frames(20 :=
        \<lparr>keylist = [V_End, V_Typeset 1 0 {}, V_Typeset 2 0 {}, V_Typeset 3 0 {}],
         varlist = [V_Unset, V_Integer 100, V_Word REB_SET_WORD 53, V_Word REB_WORD 54]\<rparr>),
      next_free = 21\<rparr>"

definition set_word_id_heap :: heap where
  "set_word_id_heap =
     \<lparr>frames = boot_frames(20 :=
        \<lparr>keylist = [V_End, V_Typeset 1 0 {}, V_Typeset 2 0 {}, V_Typeset 3 0 {}],
         varlist = [V_Unset, V_Integer 100, V_Word REB_WORD 53, V_Word REB_SET_WORD 54]\<rparr>),
      next_free = 21\<rparr>"

text \<open>
  The function side of the image: catch 80, throw 70, return 90, integer! 33, and the
  type bits of a block taken as the number of its elements.
\<close>

definition boot_fenv :: fenv where
  "boot_fenv =
     \<lparr>FN_CANON = (\<lambda>s. s mod 100), SYM_CATCH = 80, SYM_THROW = 70, SYM_RETURN = 90,
      KEY_BITS = - 1, REFINEMENT_BITS = 6, TYPESET_BITS = (\<lambda>blk. Inr (of_nat (length blk))),
      TAG_EQUAL = (=), ROOT_TRANSPARENT_TAG = ''transparent'', ROOT_INFIX_TAG = ''infix'',
      ROOT_LOCAL_TAG = ''local''\<rparr>"

text \<open>
  The globals of the image before any trap: empty stacks and lists, and in memory an
  error object at 20 with the code 100.
\<close>

definition boot_globals :: globals where
  "boot_globals =
     \<lparr>DSP = - 1, DSF = None, CS_Top = None,
      GC_Series_Guard = \<lparr>ser_tail = 0, ser_data = (\<lambda>i. 0)\<rparr>,
      GC_Value_Guard = \<lparr>ser_tail = 0, ser_data = (\<lambda>i. 0)\<rparr>,
      GC_Manuals = \<lparr>ser_tail = 0, ser_data = (\<lambda>i. 0)\<rparr>,
      GC_Disabled = 0, Saved_State = None, TASK_THROWN_ARG = V_Unset,
      mem = \<lparr>frames = boot_frames(20 :=
                \<lparr>keylist = [V_End, V_Typeset 1 0 {}, V_Typeset 2 0 {}, V_Typeset 3 0 {},
                            V_Typeset 4 0 {}, V_Typeset 5 0 {}, V_Typeset 6 0 {}],
                 varlist = [V_Unset, V_Integer 100, V_Word REB_WORD 53, V_Word REB_WORD 54,
                            V_BinStr REB_STRING ''stack overflow'', V_None, V_None]\<rparr>),
              next_free = 21\<rparr>,
      freed_calls = {}, freed_series = {}\<rparr>"

section \<open>Theorems\<close>

subsection \<open>Length and tail of an object\<close>

lemma unat_REBCNT_of: "n < 2 ^ 32 \<Longrightarrow> unat (REBCNT_of n) = n"
  by (simp add: REBCNT_of_def unat_of_nat)

lemma unat_ucast_32_64: "unat (ucast (w :: 32 word) :: 64 word) = unat w"
proof -
  have "unat w < 2 ^ 64"
    by (rule less_le_trans [OF unsigned_less]) simp
  then show ?thesis
    by (simp add: unsigned_ucast_eq take_bit_nat_eq_self)
qed

lemma REBCNT_pred: "1 \<le> n \<Longrightarrow> n < 2 ^ 32 \<Longrightarrow> unat (REBCNT_of n - 1) = n - 1"
proof -
  assume a: "1 \<le> n" and b: "n < 2 ^ 32"
  have "REBCNT_of n - 1 = REBCNT_of (n - 1)"
    using a by (simp add: REBCNT_of_def)
  then show ?thesis
    using b by (simp add: unat_REBCNT_of)
qed

text \<open>
  C10. For every object whose frame has its self slot (tail at least 1, and a tail that
  fits the 32-bit count), LENGTH? returns the integer tail - 1, so the self slot at index 0
  is not counted, and TAIL? returns true exactly when that count is zero, which is when
  the tail is at most 1.
\<close>

theorem object_length_tail:
  assumes "1 \<le> SERIES_TAIL (varlist (frames h a))"
    and "SERIES_TAIL (varlist (frames h a)) < 2 ^ 32"
  shows "\<exists>n. T_Object h A_LENGTHQ (V_Obj REB_OBJECT a) = Inr (V_Integer n)
           \<and> unat n = SERIES_TAIL (varlist (frames h a)) - 1
           \<and> T_Object h A_TAILQ (V_Obj REB_OBJECT a) = Inr (V_Logic (unat n = 0))
           \<and> (unat n = 0 \<longleftrightarrow> SERIES_TAIL (varlist (frames h a)) \<le> 1)"
proof -
  let ?t = "SERIES_TAIL (varlist (frames h a))"
  let ?n = "ucast (REBCNT_of ?t - 1) :: 64 word"
  have u: "unat ?n = ?t - 1"
    using assms by (simp add: unat_ucast_32_64 REBCNT_pred)
  have z: "(unat ?n = 0) = (?t \<le> 1)"
    using assms u by auto
  show ?thesis
    using u z by simp
qed

theorem object_length_tail_witness:
  "\<exists>n. T_Object \<lparr>frames = (\<lambda>_. \<lparr>keylist = [V_End, V_Typeset 7 0 {}],
                                     varlist = [V_Unset, V_Integer 5]\<rparr>), next_free = 1\<rparr>
          A_LENGTHQ (V_Obj REB_OBJECT 0) = Inr (V_Integer n) \<and> unat n = 1"
  using object_length_tail [of "\<lparr>frames = (\<lambda>_. \<lparr>keylist = [V_End, V_Typeset 7 0 {}],
                                     varlist = [V_Unset, V_Integer 5]\<rparr>), next_free = 1\<rparr>" 0]
  by (simp add: SERIES_TAIL_def)

subsection \<open>Exit status\<close>

lemma sint_VAL_INT32_in_range:
  assumes "- (2 ^ 31) \<le> sint (i :: 64 word)" and "sint i < 2 ^ 31"
  shows "sint (ucast i :: 32 word) = sint i"
proof -
  have "sint (ucast i :: 32 word) = signed_take_bit 31 (uint i)"
    by (simp add: sint_uint unsigned_ucast_eq signed_take_bit_take_bit)
  also have "\<dots> = signed_take_bit 31 (signed_take_bit 63 (uint i))"
    by (simp add: signed_take_bit_signed_take_bit)
  also have "\<dots> = signed_take_bit 31 (sint i)"
    by (simp add: sint_uint)
  also have "\<dots> = sint i"
    using assms by (simp add: signed_take_bit_int_eq_self)
  finally show ?thesis .
qed

text \<open>
  C8. The exit status of a value: an integer gives its low 32 bits (the integer itself
  when it fits the signed 32-bit range), unset and none give 0, an error gives the low
  32 bits of the integer in its code field, and every other value gives 1.
\<close>

theorem exit_status_mapping:
  "(\<forall>i. Exit_Status_From_Value h (V_Integer i) = Inr (ucast i)
        \<and> (- (2 ^ 31) \<le> sint i \<and> sint i < 2 ^ 31 \<longrightarrow> sint (ucast i :: 32 word) = sint i))
   \<and> Exit_Status_From_Value h V_Unset = Inr 0
   \<and> Exit_Status_From_Value h V_None = Inr 0
   \<and> (\<forall>a c. err_code (frames h a) = V_Integer c
        \<longrightarrow> Exit_Status_From_Value h (V_Obj REB_ERROR a) = Inr (ucast c))
   \<and> (\<forall>v. \<not> IS_INTEGER v \<and> \<not> IS_UNSET v \<and> \<not> IS_NONE v \<and> \<not> IS_ERROR v
        \<longrightarrow> Exit_Status_From_Value h v = Inr 1)"
proof -
  have other: "Exit_Status_From_Value h v = Inr 1"
    if "\<not> IS_INTEGER v" "\<not> IS_UNSET v" "\<not> IS_NONE v" "\<not> IS_ERROR v" for v
  proof (cases v)
    case (V_Obj k a)
    then show ?thesis using that by (cases k) (simp_all add: IS_ERROR_def)
  qed (use that in \<open>simp_all add: IS_INTEGER_def IS_UNSET_def IS_NONE_def\<close>)
  show ?thesis
    using other sint_VAL_INT32_in_range by (simp add: ERR_NUM_def)
qed

theorem exit_status_mapping_witness:
  "Exit_Status_From_Value
     \<lparr>frames = (\<lambda>_. \<lparr>keylist = [], varlist = [V_Unset, V_Integer 1000]\<rparr>), next_free = 1\<rparr>
     (V_Obj REB_ERROR 0) = Inr 1000
   \<and> Exit_Status_From_Value
     \<lparr>frames = (\<lambda>_. \<lparr>keylist = [], varlist = [V_Unset, V_Integer 1000]\<rparr>), next_free = 1\<rparr>
     (V_BinStr REB_STRING ''done'') = Inr 1
   \<and> sint (ucast (7 :: 64 word) :: 32 word) = sint (7 :: 64 word)"
  using exit_status_mapping
    [of "\<lparr>frames = (\<lambda>_. \<lparr>keylist = [], varlist = [V_Unset, V_Integer 1000]\<rparr>), next_free = 1\<rparr>"]
  by (simp add: err_code_def FRM_VALUE_def BLK_SKIP_def)

subsection \<open>Equality of objects\<close>







subsection \<open>Looking up an error code\<close>

lemmas boot_simps =
  boot_env_def boot_heap_def boot_frames_def SERIES_TAIL_def FRM_VALUE_def FRM_KEY_def
  BLK_SKIP_def IS_OBJECT_def IS_INTEGER_def IS_STRING_def IS_NONE_def IS_WORD_def
  IS_ERROR_def IS_BLOCK_def

text \<open>
  C6, as stated, fails at code 0: it is looked up like any other code, in category 0 at
  offset 0. On a catalog whose first category has a template there, the template is
  returned and both outputs are written.
\<close>

theorem find_error_code_zero_counterexample:
  "Find_Error_For_Code boot_env boot_heap V_Unset V_Unset 0 =
     Inr (Some (V_BinStr REB_STRING ''invalid error code zero''),
          V_Word REB_WORD 51, V_Word REB_WORD 50)"
  by (simp add: Find_Error_For_Code_def TYPESET_SYM_read_def boot_simps)

text \<open>
  C6, amended. A code whose category slot (code / 100 + 1) is past the tail of the catalog
  or holds no object, or whose template slot (code mod 100 + 3) is past the tail of its
  category, gives NULL and leaves id_out and type_out as they were; and whenever NULL is
  returned the two outputs are unchanged, so they are written only with a non-NULL result.
\<close>

theorem find_error_not_found:
  "(\<forall>i' t'. Find_Error_For_Code e h i t code = Inr (None, i', t') \<longrightarrow> i' = i \<and> t' = t)
   \<and> (SERIES_TAIL (varlist (frames h (CAT_ERRORS e))) < unat (code div 100) + 1
        \<or> \<not> IS_OBJECT (FRM_VALUE (frames h (CAT_ERRORS e)) (unat (code div 100) + 1))
      \<longrightarrow> Find_Error_For_Code e h i t code = Inr (None, i, t))
   \<and> (\<forall>ca. FRM_VALUE (frames h (CAT_ERRORS e)) (unat (code div 100) + 1) = V_Obj REB_OBJECT ca
          \<and> SERIES_TAIL (varlist (frames h ca)) < unat (code mod 100) + 3
      \<longrightarrow> Find_Error_For_Code e h i t code = Inr (None, i, t))"
proof -
  have unchanged: "i' = i \<and> t' = t"
    if "Find_Error_For_Code e h i t code = Inr (None, i', t')" for i' t'
    using that
    by (auto simp: Find_Error_For_Code_def Let_def split: if_splits sum.splits)
  have no_category: "Find_Error_For_Code e h i t code = Inr (None, i, t)"
    if "SERIES_TAIL (varlist (frames h (CAT_ERRORS e))) < unat (code div 100) + 1
        \<or> \<not> IS_OBJECT (FRM_VALUE (frames h (CAT_ERRORS e)) (unat (code div 100) + 1))"
    using that by (auto simp: Find_Error_For_Code_def Let_def)
  have no_template: "Find_Error_For_Code e h i t code = Inr (None, i, t)"
    if "FRM_VALUE (frames h (CAT_ERRORS e)) (unat (code div 100) + 1) = V_Obj REB_OBJECT ca
        \<and> SERIES_TAIL (varlist (frames h ca)) < unat (code mod 100) + 3" for ca
    using that by (auto simp: Find_Error_For_Code_def Let_def)
  show ?thesis
    using unchanged no_category no_template by blast
qed

theorem find_error_not_found_witness:
  "Find_Error_For_Code boot_env boot_heap V_Unset V_None 300 = Inr (None, V_Unset, V_None)
   \<and> Find_Error_For_Code boot_env boot_heap V_Unset V_None 103 = Inr (None, V_Unset, V_None)"
proof -
  have d: "unat ((300 :: 32 word) div 100) = 3" "unat ((103 :: 32 word) div 100) = 1"
    "unat ((103 :: 32 word) mod 100) = 3"
    by (simp_all add: unat_div unat_mod)
  show ?thesis
    using find_error_not_found [of boot_env boot_heap V_Unset V_None 300]
      find_error_not_found [of boot_env boot_heap V_Unset V_None 103]
    by (simp add: d boot_simps)
qed

subsection \<open>An error from a string\<close>

lemma frames_set_err_field:
  "frames (set_err_field h a n v) b =
     (if b = a then (frames h a)\<lparr>varlist := (varlist (frames h a))[n := v]\<rparr> else frames h b)"
  by (simp add: set_err_field_def)

lemmas set_err_defs = set_err_code_def set_err_type_def set_err_id_def set_err_message_def

lemmas err_field_defs = err_code_def err_type_def err_id_def err_message_def FRM_VALUE_def
  BLK_SKIP_def

lemma Copy_Array_Shallow_result:
  "Copy_Array_Shallow h a = (next_free h,
      h\<lparr>frames := (frames h)(next_free h := frames h a), next_free := next_free h + 1\<rparr>)"
  by (simp add: Copy_Array_Shallow_def alloc_frame_def)

lemma is_word_cases: "IS_WORD v \<Longrightarrow> \<exists>s. v = V_Word REB_WORD s"
  by (cases v) (auto simp: IS_WORD_def)

lemma is_none_cases: "IS_NONE v \<Longrightarrow> v = V_None"
  by (cases v) (auto simp: IS_NONE_def)

lemma validate_error_user:
  assumes c0: "err_code (frames h a) = V_None"
    and ty: "IS_WORD (err_type (frames h a)) \<or> IS_NONE (err_type (frames h a))"
    and idw: "IS_WORD (err_id (frames h a)) \<or> IS_NONE (err_id (frames h a))"
    and msg: "IS_BLOCK (err_message (frames h a)) \<or> IS_STRING (err_message (frames h a))
              \<or> IS_NONE (err_message (frames h a))"
    and len: "5 \<le> length (varlist (frames h a))"
    and free: "\<forall>s. err_type (frames h a) = V_Word REB_WORD s \<and> IS_WORD (err_id (frames h a))
               \<longrightarrow> Find_Word_Value e (frames h (CAT_ERRORS e)) s = None"
  shows "validate_error e h a arg
           = Inr (False, V_Obj REB_ERROR a, set_err_code h a (V_Integer (ucast RE_USER)))"
proof (cases "IS_WORD (err_type (frames h a)) \<and> IS_WORD (err_id (frames h a))")
  case True
  then obtain s where s: "err_type (frames h a) = V_Word REB_WORD s"
    using is_word_cases by blast
  have "Find_Word_Value e (frames h (CAT_ERRORS e)) s = None"
    using free s True by blast
  then show ?thesis
    using True s
    by (simp add: validate_error_def c0 IS_INTEGER_def validate_named_def Val_Init_Error_def
        WORD_SYM_read_def)
next
  case False
  have keep: "err_id (frames (set_err_code h a v) a) = err_id (frames h a)
      \<and> err_type (frames (set_err_code h a v) a) = err_type (frames h a)
      \<and> err_message (frames (set_err_code h a v) a) = err_message (frames h a)" for v
    using len by (simp add: set_err_defs frames_set_err_field err_field_defs)
  have "validate_error e h a arg = validate_other e h a arg"
    using False by (auto simp: validate_error_def c0 IS_INTEGER_def)
  also have "\<dots> = Inr (False, V_Obj REB_ERROR a, set_err_code h a (V_Integer (ucast RE_USER)))"
    using ty idw msg
    by (simp add: validate_other_def c0 Val_Init_Error_def Let_def keep IS_NONE_def [of V_None])
  finally show ?thesis .
qed

text \<open>
  C7. On a heap where the root error object has its fixed fields, no code, and a type and
  an id that are each a word or none (the default user markers) and do not together name
  a category of the catalog, making an error from a string returns FALSE with an error
  whose message is that string, whose type and id are the root object's markers, and
  whose code is the integer 1000 (RE_USER).
\<close>

theorem make_error_from_string:
  assumes len: "5 \<le> length (varlist (frames h (ROOT_ERROBJ e)))"
    and cat: "CAT_ERRORS e < next_free h"
    and code: "IS_NONE (err_code (frames h (ROOT_ERROBJ e)))"
    and ty: "IS_WORD (err_type (frames h (ROOT_ERROBJ e)))
             \<or> IS_NONE (err_type (frames h (ROOT_ERROBJ e)))"
    and idw: "IS_WORD (err_id (frames h (ROOT_ERROBJ e)))
              \<or> IS_NONE (err_id (frames h (ROOT_ERROBJ e)))"
    and free: "\<forall>s. err_type (frames h (ROOT_ERROBJ e)) = V_Word REB_WORD s
                  \<and> IS_WORD (err_id (frames h (ROOT_ERROBJ e)))
               \<longrightarrow> Find_Word_Value e (frames h (CAT_ERRORS e)) s = None"
  shows "\<exists>a h'. Make_Error_Object_Throws e h (V_BinStr REB_STRING str)
                   = Inr (False, V_Obj REB_ERROR a, h')
           \<and> err_message (frames h' a) = V_BinStr REB_STRING str
           \<and> err_type (frames h' a) = err_type (frames h (ROOT_ERROBJ e))
           \<and> err_id (frames h' a) = err_id (frames h (ROOT_ERROBJ e))
           \<and> err_code (frames h' a) = V_Integer 1000"
proof -
  let ?root = "frames h (ROOT_ERROBJ e)"
  define a where "a = next_free h"
  define h2 where "h2 = set_err_message
      (h\<lparr>frames := (frames h)(a := ?root), next_free := a + 1\<rparr>) a (V_BinStr REB_STRING str)"
  have make: "Make_Error_Object_Throws e h (V_BinStr REB_STRING str)
          = validate_error e h2 a (V_BinStr REB_STRING str)"
    by (simp add: Make_Error_Object_Throws_def IS_ERROR_def IS_OBJECT_def IS_BLOCK_def
        IS_STRING_def Copy_Array_Shallow_result h2_def a_def)
  have cats: "frames h2 (CAT_ERRORS e) = frames h (CAT_ERRORS e)"
    using cat by (simp add: h2_def a_def set_err_defs frames_set_err_field)
  have c0: "err_code (frames h2 a) = V_None"
    using code len is_none_cases [of "err_code ?root"]
    by (simp add: h2_def set_err_defs frames_set_err_field err_field_defs)
  have t0: "err_type (frames h2 a) = err_type ?root"
    using len by (simp add: h2_def set_err_defs frames_set_err_field err_field_defs)
  have i0: "err_id (frames h2 a) = err_id ?root"
    using len by (simp add: h2_def set_err_defs frames_set_err_field err_field_defs)
  have m0: "err_message (frames h2 a) = V_BinStr REB_STRING str"
    using len by (simp add: h2_def set_err_defs frames_set_err_field err_field_defs)
  have l2: "5 \<le> length (varlist (frames h2 a))"
    using len by (simp add: h2_def set_err_defs frames_set_err_field)
  define h3 where "h3 = set_err_code h2 a (V_Integer (ucast RE_USER))"
  have val: "validate_error e h2 a (V_BinStr REB_STRING str) = Inr (False, V_Obj REB_ERROR a, h3)"
    unfolding h3_def
    by (rule validate_error_user) (use ty idw free l2 in \<open>simp_all add: c0 t0 i0 m0 cats IS_STRING_def\<close>)
  have fields3: "err_message (frames h3 a) = V_BinStr REB_STRING str
           \<and> err_type (frames h3 a) = err_type ?root
           \<and> err_id (frames h3 a) = err_id ?root
           \<and> err_code (frames h3 a) = V_Integer 1000"
    using l2 m0 t0 i0
    by (simp add: h3_def set_err_defs frames_set_err_field err_field_defs RE_USER_def)
  show ?thesis
    using make val fields3 by auto
qed

theorem make_error_from_string_witness:
  "\<exists>a h'. Make_Error_Object_Throws boot_env boot_heap (V_BinStr REB_STRING ''oops'')
             = Inr (False, V_Obj REB_ERROR a, h')
         \<and> err_message (frames h' a) = V_BinStr REB_STRING ''oops''
         \<and> err_type (frames h' a) = V_Word REB_WORD 60
         \<and> err_id (frames h' a) = V_Word REB_WORD 4
         \<and> err_code (frames h' a) = V_Integer 1000"
proof -
  have nocat: "Find_Word_Value boot_env (frames boot_heap (CAT_ERRORS boot_env)) 60 = None"
    by (simp add: Find_Word_Value_def Find_Word_Index_def SAME_SYM_def boot_simps)
  show ?thesis
    using make_error_from_string [of boot_heap boot_env "''oops''"] nocat
    by (simp add: boot_simps err_field_defs)
qed

subsection \<open>Thrown values and returned errors\<close>

lemma err_code_after_set:
  "err_code (frames (set_err_message h a v) a) = err_code (frames h a)
   \<and> err_code (frames (set_err_id h a v) a) = err_code (frames h a)
   \<and> err_code (frames (set_err_type h a v) a) = err_code (frames h a)"
  by (simp add: set_err_defs frames_set_err_field err_field_defs)

lemma err_code_set_code:
  "1 < length (varlist (frames h a)) \<Longrightarrow> err_code (frames (set_err_code h a v) a) = v"
  by (simp add: set_err_defs frames_set_err_field err_field_defs)

lemma length_set_err_message:
  "length (varlist (frames (set_err_message h a v) a)) = length (varlist (frames h a))"
  by (simp add: set_err_defs frames_set_err_field)

lemma none_slot_in_range: "IS_NONE (FRM_VALUE f n) \<Longrightarrow> n < length (varlist f)"
  by (cases "n < length (varlist f)") (simp_all add: FRM_VALUE_def BLK_SKIP_def IS_NONE_def)

lemma word_slot_in_range: "IS_WORD (FRM_VALUE f n) \<Longrightarrow> n < length (varlist f)"
  by (cases "n < length (varlist f)") (simp_all add: FRM_VALUE_def BLK_SKIP_def IS_WORD_def)

lemma validate_coded_result:
  assumes "validate_coded e h a arg code = Inr (t, out, h')"
    and "IS_INTEGER (err_code (frames h a))"
  shows "\<not> t \<and> out = V_Obj REB_ERROR a \<and> IS_INTEGER (err_code (frames h' a))"
  using assms
  by (auto simp: validate_coded_def Val_Init_Error_def Let_def err_code_after_set
      split: if_splits sum.splits option.splits prod.splits)

lemma validate_named_result:
  assumes r: "validate_named e h a arg = Inr (t, out, h')"
    and w: "IS_WORD (err_type (frames h a))"
  shows "\<not> t \<and> out = V_Obj REB_ERROR a \<and> IS_INTEGER (err_code (frames h' a))"
proof -
  have len: "1 < length (varlist (frames h a))"
    using word_slot_in_range [of "frames h a" 2] w by (simp add: err_type_def)
  then have len': "1 < length (varlist (frames (set_err_message h a v) a))" for v
    by (simp add: length_set_err_message)
  show ?thesis
    using r len len'
    by (auto simp: validate_named_def Val_Init_Error_def Let_def err_code_set_code IS_INTEGER_def
        split: if_splits sum.splits option.splits)
qed

lemma validate_other_result:
  assumes r: "validate_other e h a arg = Inr (t, out, h')"
  shows "\<not> t \<and> out = V_Obj REB_ERROR a \<and> IS_INTEGER (err_code (frames h' a))"
proof (cases "IS_NONE (err_code (frames h a))")
  case True
  then have "1 < length (varlist (frames h a))"
    using none_slot_in_range [of "frames h a" 1] by (simp add: err_code_def)
  then show ?thesis
    using r True
    by (auto simp: validate_other_def Val_Init_Error_def Let_def err_code_set_code IS_INTEGER_def
        split: if_splits)
next
  case False
  then show ?thesis
    using r
    by (auto simp: validate_other_def Val_Init_Error_def Let_def split: if_splits)
qed

lemma validate_error_result:
  assumes "validate_error e h a arg = Inr (t, out, h')"
  shows "\<not> t \<and> out = V_Obj REB_ERROR a \<and> IS_INTEGER (err_code (frames h' a))"
proof (cases "IS_INTEGER (err_code (frames h a))")
  case True
  then have "validate_coded e h a arg (INT32_read e (err_code (frames h a))) = Inr (t, out, h')"
    using assms by (simp add: validate_error_def)
  then show ?thesis
    using validate_coded_result True by blast
next
  case no_int: False
  show ?thesis
  proof (cases "IS_WORD (err_type (frames h a)) \<and> IS_WORD (err_id (frames h a))")
    case True
    then have "validate_named e h a arg = Inr (t, out, h')"
      using assms no_int by (simp add: validate_error_def)
    then show ?thesis
      using validate_named_result True by blast
  next
    case False
    then have "validate_other e h a arg = Inr (t, out, h')"
      using assms no_int by (auto simp: validate_error_def)
    then show ?thesis
      using validate_other_result by blast
  qed
qed

text \<open>
  C5, as stated, fails where the routine does not return at all: an argument that is not
  an error, object, block or string ends in \<^verbatim>\<open>fail (Error(RE_INVALID_ERROR, arg))\<close>,
  which is neither a thrown result nor FALSE with an error object.
\<close>

theorem make_error_integer_counterexample:
  "Make_Error_Object_Throws boot_env boot_heap (V_Integer 5) = Inl (RE_INVALID_ERROR (V_Integer 5))"
  by (simp add: Make_Error_Object_Throws_def boot_simps)

text \<open>
  C5, amended. A block argument whose evaluation throws makes the routine return TRUE
  with the thrown value in its output, and TRUE is returned in no other case. Whenever
  the routine returns FALSE its output is an error value whose code field is an integer.
  It does not return in every case without a throw: an argument that is not an error, an
  object, a block or a string makes it fail with the invalid-error diagnosis on that
  argument, and a failure raised by the evaluation of a block argument is the failure of
  the routine.
\<close>

theorem make_error_thrown_passes_through:
  "(\<forall>data frame h1 out h2.
       Make_Object e h (ROOT_ERROBJ e) data = (frame, h1)
       \<and> DO_ARRAY_THROWS e h1 frame (V_Array REB_BLOCK data) = Inr (True, out, h2)
     \<longrightarrow> Make_Error_Object_Throws e h (V_Array REB_BLOCK data) = Inr (True, out, h2))
   \<and> (\<forall>out h'. Make_Error_Object_Throws e h arg = Inr (True, out, h')
     \<longrightarrow> (\<exists>data frame h1. arg = V_Array REB_BLOCK data
            \<and> Make_Object e h (ROOT_ERROBJ e) data = (frame, h1)
            \<and> DO_ARRAY_THROWS e h1 frame arg = Inr (True, out, h')))
   \<and> (\<forall>out h'. Make_Error_Object_Throws e h arg = Inr (False, out, h')
     \<longrightarrow> (\<exists>a. out = V_Obj REB_ERROR a \<and> IS_INTEGER (err_code (frames h' a))))
   \<and> (\<not> (IS_ERROR arg \<or> IS_OBJECT arg \<or> IS_BLOCK arg \<or> IS_STRING arg)
     \<longrightarrow> Make_Error_Object_Throws e h arg = Inl (RE_INVALID_ERROR arg))
   \<and> (\<forall>data frame h1 er.
       Make_Object e h (ROOT_ERROBJ e) data = (frame, h1)
       \<and> DO_ARRAY_THROWS e h1 frame (V_Array REB_BLOCK data) = Inl er
     \<longrightarrow> Make_Error_Object_Throws e h (V_Array REB_BLOCK data) = Inl er)"
proof -
  have throws: "Make_Error_Object_Throws e h (V_Array REB_BLOCK data) = Inr (True, out, h2)"
    if "Make_Object e h (ROOT_ERROBJ e) data = (frame, h1)
        \<and> DO_ARRAY_THROWS e h1 frame (V_Array REB_BLOCK data) = Inr (True, out, h2)"
    for data frame h1 out h2
    using that
    by (simp add: Make_Error_Object_Throws_def IS_ERROR_def IS_OBJECT_def IS_BLOCK_def)
  have eval_fails: "Make_Error_Object_Throws e h (V_Array REB_BLOCK data) = Inl er"
    if "Make_Object e h (ROOT_ERROBJ e) data = (frame, h1)
        \<and> DO_ARRAY_THROWS e h1 frame (V_Array REB_BLOCK data) = Inl er"
    for data frame h1 er
    using that
    by (simp add: Make_Error_Object_Throws_def IS_ERROR_def IS_OBJECT_def IS_BLOCK_def)
  have other_kind: "Make_Error_Object_Throws e h arg = Inl (RE_INVALID_ERROR arg)"
    if "\<not> (IS_ERROR arg \<or> IS_OBJECT arg \<or> IS_BLOCK arg \<or> IS_STRING arg)"
    using that by (simp add: Make_Error_Object_Throws_def)
  have split_result: "(\<exists>h0 a. validate_error e h0 a arg = Inr r)
      \<or> (\<exists>data frame h1. arg = V_Array REB_BLOCK data
            \<and> Make_Object e h (ROOT_ERROBJ e) data = (frame, h1)
            \<and> DO_ARRAY_THROWS e h1 frame arg = Inr r \<and> fst r)"
    if r: "Make_Error_Object_Throws e h arg = Inr r" for r
  proof (cases "IS_ERROR arg \<or> IS_OBJECT arg")
    case True
    then obtain x where x: "VAL_OBJ_FRAME arg = Inr x"
      using r by (cases "VAL_OBJ_FRAME arg") (simp_all add: Make_Error_Object_Throws_def)
    obtain frame h1 where "Merge_Frames e h (ROOT_ERROBJ e) x = (frame, h1)"
      by (cases "Merge_Frames e h (ROOT_ERROBJ e) x") auto
    then have "validate_error e h1 frame arg = Inr r"
      using r True x by (simp add: Make_Error_Object_Throws_def)
    then show ?thesis by blast
  next
    case no_obj: False
    show ?thesis
    proof (cases "IS_BLOCK arg")
      case True
      then obtain data where arg: "arg = V_Array REB_BLOCK data"
        by (cases arg) (auto simp: IS_BLOCK_def)
      obtain frame h1 where mk: "Make_Object e h (ROOT_ERROBJ e) data = (frame, h1)"
        by (cases "Make_Object e h (ROOT_ERROBJ e) data") auto
      obtain th ev h2 where ev: "DO_ARRAY_THROWS e h1 frame arg = Inr (th, ev, h2)"
        using r arg mk no_obj
        by (cases "DO_ARRAY_THROWS e h1 frame arg")
          (auto simp: Make_Error_Object_Throws_def IS_BLOCK_def)
      show ?thesis
      proof (cases th)
        case True
        then have "r = (True, ev, h2)"
          using r arg mk ev no_obj
          by (simp add: Make_Error_Object_Throws_def IS_BLOCK_def)
        then show ?thesis
          using arg mk ev True by simp
      next
        case False
        then have "validate_error e h2 frame arg = Inr r"
          using r arg mk ev no_obj
          by (simp add: Make_Error_Object_Throws_def IS_BLOCK_def)
        then show ?thesis by blast
      qed
    next
      case no_block: False
      show ?thesis
      proof (cases "IS_STRING arg")
        case True
        then obtain s where arg: "arg = V_BinStr REB_STRING s"
          by (cases arg) (auto simp: IS_STRING_def)
        obtain frame h1 where "Copy_Array_Shallow h (ROOT_ERROBJ e) = (frame, h1)"
          by (cases "Copy_Array_Shallow h (ROOT_ERROBJ e)") auto
        then have "validate_error e (set_err_message h1 frame (V_BinStr REB_STRING s)) frame arg
                     = Inr r"
          using r arg no_obj no_block
          by (simp add: Make_Error_Object_Throws_def IS_STRING_def)
        then show ?thesis by blast
      next
        case False
        then show ?thesis
          using r no_obj no_block by (simp add: Make_Error_Object_Throws_def)
      qed
    qed
  qed
  have only_block: "\<exists>data frame h1. arg = V_Array REB_BLOCK data
            \<and> Make_Object e h (ROOT_ERROBJ e) data = (frame, h1)
            \<and> DO_ARRAY_THROWS e h1 frame arg = Inr (True, out, h')"
    if r: "Make_Error_Object_Throws e h arg = Inr (True, out, h')" for out h'
    using split_result [OF r]
  proof
    assume "\<exists>h0 a. validate_error e h0 a arg = Inr (True, out, h')"
    then obtain h0 a where "validate_error e h0 a arg = Inr (True, out, h')"
      by blast
    from validate_error_result [OF this] show ?thesis
      by simp
  next
    assume "\<exists>data frame h1. arg = V_Array REB_BLOCK data
            \<and> Make_Object e h (ROOT_ERROBJ e) data = (frame, h1)
            \<and> DO_ARRAY_THROWS e h1 frame arg = Inr (True, out, h') \<and> fst (True, out, h')"
    then show ?thesis
      by simp
  qed
  have not_thrown: "\<exists>a. out = V_Obj REB_ERROR a \<and> IS_INTEGER (err_code (frames h' a))"
    if r: "Make_Error_Object_Throws e h arg = Inr (False, out, h')" for out h'
    using split_result [OF r]
  proof
    assume "\<exists>h0 a. validate_error e h0 a arg = Inr (False, out, h')"
    then obtain h0 a where "validate_error e h0 a arg = Inr (False, out, h')"
      by blast
    from validate_error_result [OF this] show ?thesis
      by simp
  next
    assume "\<exists>data frame h1. arg = V_Array REB_BLOCK data
            \<and> Make_Object e h (ROOT_ERROBJ e) data = (frame, h1)
            \<and> DO_ARRAY_THROWS e h1 frame arg = Inr (False, out, h') \<and> fst (False, out, h')"
    then show ?thesis
      by simp
  qed
  show ?thesis
    using throws only_block not_thrown other_kind eval_fails by blast
qed

theorem make_error_thrown_passes_through_witness:
  "Make_Error_Object_Throws boot_env boot_heap (V_Array REB_BLOCK [V_Word REB_WORD 70])
     = Inr (True, V_Integer 42,
            boot_heap\<lparr>frames := (frames boot_heap)(20 := frames boot_heap 13), next_free := 21\<rparr>)
   \<and> (\<exists>h'. Make_Error_Object_Throws boot_env boot_heap (V_Array REB_BLOCK [])
               = Inr (False, V_Obj REB_ERROR 20, h')
           \<and> IS_INTEGER (err_code (frames h' 20)))
   \<and> Make_Error_Object_Throws boot_env boot_heap (V_Logic True)
       = Inl (RE_INVALID_ERROR (V_Logic True))
   \<and> Make_Error_Object_Throws boot_env boot_heap (V_Array REB_BLOCK [V_Word REB_WORD 71])
       = Inl (RE_OTHER 300)"
  (is "_ = Inr (True, _, ?h1) \<and> ?returned \<and> ?refused \<and> ?failed")
proof -
  have mk: "Make_Object boot_env boot_heap (ROOT_ERROBJ boot_env) data = (20, ?h1)" for data
    by (simp add: boot_env_def boot_heap_def Copy_Array_Shallow_result)
  have ev: "DO_ARRAY_THROWS boot_env ?h1 20 (V_Array REB_BLOCK [V_Word REB_WORD 70])
              = Inr (True, V_Integer 42, ?h1)"
    by (simp add: boot_env_def)
  have ev_fail: "DO_ARRAY_THROWS boot_env ?h1 20 (V_Array REB_BLOCK [V_Word REB_WORD 71])
              = Inl (RE_OTHER 300)"
    by (simp add: boot_env_def)
  have nocat: "Find_Word_Value boot_env (boot_frames 10) 60 = None"
    by (simp add: Find_Word_Value_def Find_Word_Index_def SAME_SYM_def boot_simps)
  have run: "Make_Error_Object_Throws boot_env boot_heap (V_Array REB_BLOCK [])
               = Inr (False, V_Obj REB_ERROR 20,
                      set_err_code ?h1 20 (V_Integer (ucast RE_USER)))"
    using nocat
    by (simp add: Make_Error_Object_Throws_def Copy_Array_Shallow_result validate_error_def
        validate_named_def WORD_SYM_read_def Val_Init_Error_def err_field_defs boot_simps)
  have thrown: "Make_Error_Object_Throws boot_env boot_heap (V_Array REB_BLOCK [V_Word REB_WORD 70])
     = Inr (True, V_Integer 42, ?h1)"
    using make_error_thrown_passes_through
      [of boot_env boot_heap "V_Array REB_BLOCK [V_Word REB_WORD 70]", THEN conjunct1,
       rule_format, of "[V_Word REB_WORD 70]" 20 ?h1 "V_Integer 42" ?h1] mk ev
    by blast
  have returned: ?returned
    using make_error_thrown_passes_through [of boot_env boot_heap "V_Array REB_BLOCK []"] run
    by auto
  have refused: ?refused
    using make_error_thrown_passes_through [of boot_env boot_heap "V_Logic True"]
    by (simp add: IS_ERROR_def IS_OBJECT_def IS_BLOCK_def IS_STRING_def)
  have failed: ?failed
    using make_error_thrown_passes_through
      [of boot_env boot_heap "V_Array REB_BLOCK [V_Word REB_WORD 71]",
       THEN conjunct2, THEN conjunct2, THEN conjunct2, THEN conjunct2,
       rule_format, of "[V_Word REB_WORD 71]" 20 ?h1 "RE_OTHER 300"] mk ev_fail
    by blast
  show ?thesis
    using thrown returned refused failed by blast
qed

subsection \<open>Codes below the user threshold\<close>

lemma unat_div_mod_100:
  "unat ((100 :: 32 word) div 100) = 1" "unat ((100 :: 32 word) mod 100) = 0"
  by (simp_all add: unat_div unat_mod)

lemma merged_set_word_type:
  "Merge_Frames boot_env set_word_type_heap 13 20 =
     (21, \<lparr>frames = (frames set_word_type_heap)(21 :=
        \<lparr>keylist = [V_End, V_Typeset 1 0 {}, V_Typeset 2 0 {}, V_Typeset 3 0 {},
                    V_Typeset 4 0 {}, V_Typeset 5 0 {}, V_Typeset 6 0 {}],
         varlist = [V_Obj REB_OBJECT 21, V_Integer 100, V_Word REB_SET_WORD 53,
                    V_Word REB_WORD 54, V_None, V_None, V_None]\<rparr>), next_free = 22\<rparr>)"
  by (simp add: Merge_Frames_def alloc_frame_def set_word_type_heap_def boot_simps
      Find_Word_Value_def Find_Word_Index_def SAME_SYM_def Let_def)

lemma merged_set_word_id:
  "Merge_Frames boot_env set_word_id_heap 13 20 =
     (21, \<lparr>frames = (frames set_word_id_heap)(21 :=
        \<lparr>keylist = [V_End, V_Typeset 1 0 {}, V_Typeset 2 0 {}, V_Typeset 3 0 {},
                    V_Typeset 4 0 {}, V_Typeset 5 0 {}, V_Typeset 6 0 {}],
         varlist = [V_Obj REB_OBJECT 21, V_Integer 100, V_Word REB_WORD 53,
                    V_Word REB_SET_WORD 54, V_None, V_None, V_None]\<rparr>), next_free = 22\<rparr>)"
  by (simp add: Merge_Frames_def alloc_frame_def set_word_id_heap_def boot_simps
      Find_Word_Value_def Find_Word_Index_def SAME_SYM_def Let_def)

text \<open>
  C2 at a failing input. With code 100 and the type given as a set-word, construction
  succeeds: the check of the type tests \<^verbatim>\<open>IS_WORD\<close> on the id, which has just been replaced
  by the catalog's word, so a type that is not a WORD! is compared by symbol alone. The
  same mismatch in the id is refused with the invalid-error diagnosis.
\<close>

theorem make_error_set_word_type_accepted:
  "(\<exists>h'. Make_Error_Object_Throws boot_env set_word_type_heap (V_Obj REB_OBJECT 20)
            = Inr (False, V_Obj REB_ERROR 21, h')
          \<and> err_code (frames h' 21) = V_Integer 100
          \<and> err_type (frames h' 21) = V_Word REB_WORD 53
          \<and> err_id (frames h' 21) = V_Word REB_WORD 54)
   \<and> err_type (frames set_word_type_heap 20) = V_Word REB_SET_WORD 53
   \<and> Make_Error_Object_Throws boot_env set_word_id_heap (V_Obj REB_OBJECT 20)
        = Inl (RE_INVALID_ERROR (V_Obj REB_OBJECT 20))"
proof -
  let ?arg = "V_Obj REB_OBJECT 20"
  have root: "ROOT_ERROBJ boot_env = 13"
    by (simp add: boot_env_def)
  have "Make_Error_Object_Throws boot_env set_word_type_heap ?arg
          = validate_error boot_env (snd (Merge_Frames boot_env set_word_type_heap 13 20)) 21 ?arg"
    by (simp add: Make_Error_Object_Throws_def IS_OBJECT_def IS_ERROR_def root
        merged_set_word_type)
  moreover have "\<exists>h'. validate_error boot_env
               (snd (Merge_Frames boot_env set_word_type_heap 13 20)) 21 ?arg
            = Inr (False, V_Obj REB_ERROR 21, h')
          \<and> err_code (frames h' 21) = V_Integer 100
          \<and> err_type (frames h' 21) = V_Word REB_WORD 53
          \<and> err_id (frames h' 21) = V_Word REB_WORD 54"
    unfolding merged_set_word_type
    by (simp add: validate_error_def WORD_SYM_read_def TYPESET_SYM_read_def INT32_read_def
        validate_coded_def Find_Error_For_Code_def unat_div_mod_100 RE_USER_def
        set_err_defs set_err_field_def err_field_defs Val_Init_Error_def SAME_SYM_def
        set_word_type_heap_def boot_simps Let_def)
  ultimately have a: "\<exists>h'. Make_Error_Object_Throws boot_env set_word_type_heap ?arg
            = Inr (False, V_Obj REB_ERROR 21, h')
          \<and> err_code (frames h' 21) = V_Integer 100
          \<and> err_type (frames h' 21) = V_Word REB_WORD 53
          \<and> err_id (frames h' 21) = V_Word REB_WORD 54"
    by simp
  have b: "err_type (frames set_word_type_heap 20) = V_Word REB_SET_WORD 53"
    by (simp add: set_word_type_heap_def err_field_defs)
  have "Make_Error_Object_Throws boot_env set_word_id_heap ?arg
          = validate_error boot_env (snd (Merge_Frames boot_env set_word_id_heap 13 20)) 21 ?arg"
    by (simp add: Make_Error_Object_Throws_def IS_OBJECT_def IS_ERROR_def root
        merged_set_word_id)
  moreover have "validate_error boot_env
               (snd (Merge_Frames boot_env set_word_id_heap 13 20)) 21 ?arg
            = Inl (RE_INVALID_ERROR ?arg)"
    unfolding merged_set_word_id
    by (simp add: validate_error_def WORD_SYM_read_def TYPESET_SYM_read_def INT32_read_def
        validate_coded_def Find_Error_For_Code_def unat_div_mod_100 RE_USER_def
        set_err_defs set_err_field_def err_field_defs Val_Init_Error_def SAME_SYM_def
        set_word_id_heap_def boot_simps Let_def)
  ultimately have c: "Make_Error_Object_Throws boot_env set_word_id_heap ?arg
        = Inl (RE_INVALID_ERROR ?arg)"
    by simp
  show ?thesis
    using a b c by blast
qed

theorem make_error_set_word_type_accepted_witness:
  "Make_Error_Object_Throws boot_env set_word_type_heap (V_Obj REB_OBJECT 20)
     \<noteq> Inl (RE_INVALID_ERROR (V_Obj REB_OBJECT 20))"
  using make_error_set_word_type_accepted by auto

subsection \<open>The bubbled parameter\<close>

lemma upd_next: "(s0 # cur @ x # rest)[Suc (length cur) := t] = s0 # cur @ t # rest"
  by (simp add: list_update_append)

lemma upd_last:
  assumes "cur \<noteq> []"
  shows "(s0 # cur @ rest)[length cur := t] = s0 # (butlast cur @ [t]) @ rest"
proof -
  obtain ys y where cur: "cur = ys @ [y]"
    using assms by (metis append_butlast_last_id)
  show ?thesis
    by (simp add: cur list_update_append)
qed

lemma skip_next: "BLK_SKIP (s0 # cur @ x # rest) (Suc (length cur)) = x"
  by (simp add: BLK_SKIP_def nth_append)

lemma skip_last:
  assumes "cur \<noteq> []"
  shows "BLK_SKIP (s0 # cur @ rest) (length cur) = last cur"
proof -
  obtain ys y where cur: "cur = ys @ [y]"
    using assms by (metis append_butlast_last_id)
  show ?thesis
    by (simp add: cur BLK_SKIP_def nth_append)
qed

lemma set_param_class_fresh:
  assumes "set_param_class fe (V_Word k s) k (fresh_key fe (V_Word k s)) = Inr t"
  shows "\<exists>b x. t = V_Typeset s b x \<and> (s, x) = word_key (V_Word k s)"
  using assms by (cases k) (auto simp: fresh_key_def)

lemma Make_Typeset_key:
  assumes "Make_Typeset fe blk v = Inr t"
  shows "\<exists>s b b' x. v = V_Typeset s b x \<and> t = V_Typeset s b' x"
  using assms by (cases v) (auto split: sum.splits)

lemma spec_words_Cons:
  "spec_words (V_Word k s # items) = V_Word k s # spec_words items"
  "spec_words (V_BinStr bk str # items) = spec_words items"
  "spec_words (V_Array ak blk # items) = spec_words items"
  by (simp_all add: spec_words_def)
lemma Make_Paramlist_loop_inv:
  assumes "Make_Paramlist_loop fe c items pl ts bubble = Inr (pl', ts', bubble')"
    and "pl = s0 # cur @ map (fresh_key fe) (spec_words items)"
    and "length cur = ts"
    and "length (filter (names_sym fe c) (ws @ spec_words items)) \<le> 1"
    and "bubble_inv fe c cur bubble ws"
  shows "\<exists>cur'. pl' = s0 # cur' \<and> length cur' = ts'
           \<and> bubble_inv fe c cur' bubble' (ws @ spec_words items)"
  using assms
proof (induction items arbitrary: pl ts bubble cur ws)
  case Nil
  then show ?case
    by (auto simp: spec_words_def)
next
  case (Cons item items)
  note run = Cons.prems(1) and pl = Cons.prems(2) and len = Cons.prems(3)
    and one = Cons.prems(4) and inv = Cons.prems(5)
  show ?case
  proof (cases item)
    case (V_BinStr k str)
    then show ?thesis
      using Cons.IH [of pl ts bubble cur ws] run pl len one inv
      by (simp add: spec_words_Cons)
  next
    case (V_Array ak blk)
    show ?thesis
    proof (cases "ak = REB_BLOCK")
      case False
      then show ?thesis
        using run V_Array by (cases ak) simp_all
    next
      case True
      note blk = V_Array [unfolded True]
      show ?thesis
      proof (cases "ts = 0")
        case True
        then have "Make_Paramlist_loop fe c items pl ts bubble = Inr (pl', ts', bubble')"
          using run blk by (simp split: if_splits)
        then show ?thesis
          using Cons.IH [of pl ts bubble cur ws] pl len one inv blk
          by (simp add: spec_words_Cons)
      next
        case False
        then have ne: "cur \<noteq> []"
          using len by auto
        obtain t where mt: "Make_Typeset fe blk (last cur) = Inr t"
          and rest: "Make_Paramlist_loop fe c items (pl[ts := t]) ts bubble = Inr (pl', ts', bubble')"
          using run blk False pl len skip_last [OF ne, of s0]
          by (auto split: sum.splits)
        obtain s b b' x where lc: "last cur = V_Typeset s b x" and t: "t = V_Typeset s b' x"
          using Make_Typeset_key [OF mt] by blast
        let ?cur = "butlast cur @ [t]"
        have pl2: "pl[ts := t] = s0 # ?cur @ map (fresh_key fe) (spec_words items)"
          using upd_last [OF ne, of s0 _ t] pl len blk by (simp add: spec_words_Cons)
        have keys: "map typeset_key ?cur = map typeset_key cur"
        proof -
          have "cur = butlast cur @ [last cur]"
            using ne by simp
          then have "map typeset_key cur = map typeset_key (butlast cur) @ [typeset_key (last cur)]"
            by (metis list.simps(8,9) map_append)
          then show ?thesis
            by (simp add: lc t)
        qed
        have inv2: "bubble_inv fe c ?cur bubble ws"
        proof (cases "bubble = V_End")
          case True
          then show ?thesis
            using inv keys by (auto simp: bubble_inv_def)
        next
          case False
          then have "\<exists>ws1 bw ws2 s b x.
              ws = ws1 @ bw # ws2 \<and> names_sym fe c bw \<and> bubble = V_Typeset s b x
              \<and> (s, x) = word_key bw \<and> cur \<noteq> []
              \<and> map typeset_key (butlast cur) = map word_key (ws1 @ ws2)"
            using inv unfolding bubble_inv_def by blast
          then show ?thesis
            unfolding bubble_inv_def by simp blast
        qed
        have "length ?cur = ts"
          using len ne by (cases cur) auto
        then show ?thesis
          using Cons.IH [OF rest pl2 _ _ inv2] one blk
          by (simp add: spec_words_Cons)
      qed
    qed
  next
    case (V_Word k s)
    let ?w = "V_Word k s"
    have pl1: "pl = s0 # cur @ fresh_key fe ?w # map (fresh_key fe) (spec_words items)"
      using pl V_Word by (simp add: spec_words_Cons)
    have nxt: "BLK_SKIP pl (ts + 1) = fresh_key fe ?w"
      using pl1 len skip_next [of s0 cur] by simp
    obtain t where cls: "set_param_class fe ?w k (fresh_key fe ?w) = Inr t"
      using run V_Word nxt by (auto split: sum.splits)
    obtain b x where t: "t = V_Typeset s b x" and tk: "(s, x) = word_key ?w"
      using set_param_class_fresh [OF cls] by blast
    have upd: "pl[ts + 1 := t] = s0 # (cur @ [t]) @ map (fresh_key fe) (spec_words items)"
      using pl1 len upd_next [of s0 cur] by simp
    have one': "length (filter (names_sym fe c) ((ws @ [?w]) @ spec_words items)) \<le> 1"
      using one V_Word by (simp add: spec_words_Cons)
    have nm: "names_sym fe c ?w = (FN_CANON fe s = c)"
      using tk by (auto simp: names_sym_def dest: arg_cong [where f = fst])
    show ?thesis
    proof (cases "FN_CANON fe s = c")
      case True
      then have rest: "Make_Paramlist_loop fe c items (pl[ts + 1 := t]) (ts + 1) t
                         = Inr (pl', ts', bubble')"
        using run V_Word nxt cls t by simp
      have none: "filter (names_sym fe c) ws = []"
      proof (rule ccontr)
        assume "filter (names_sym fe c) ws \<noteq> []"
        then have "1 \<le> length (filter (names_sym fe c) ws)"
          by (cases "filter (names_sym fe c) ws") simp_all
        then show False
          using one V_Word True nm by (simp add: spec_words_Cons)
      qed
      have old: "bubble = V_End \<and> map typeset_key cur = map word_key ws"
        using inv none by (auto simp: bubble_inv_def)
      have inv2: "bubble_inv fe c (cur @ [t]) t (ws @ [?w])"
        unfolding bubble_inv_def
        using old True nm t tk by (intro disjI2 exI [of _ ws] exI [of _ ?w] exI [of _ "[]"]) auto
      have "length (cur @ [t]) = ts + 1"
        using len by simp
      from Cons.IH [OF rest upd this one' inv2] show ?thesis
        using V_Word by (simp add: spec_words_Cons)
    next
      case False
      show ?thesis
      proof (cases "IS_END bubble")
        case True
        then have rest: "Make_Paramlist_loop fe c items (pl[ts + 1 := t]) (ts + 1) bubble
                         = Inr (pl', ts', bubble')"
          using run V_Word nxt cls t False by simp
        have old: "bubble = V_End \<and> map typeset_key cur = map word_key ws
                   \<and> filter (names_sym fe c) ws = []"
          using inv True by (auto simp: bubble_inv_def IS_END_def)
        have inv2: "bubble_inv fe c (cur @ [t]) bubble (ws @ [?w])"
          unfolding bubble_inv_def
          using old False nm t tk by auto
        have "length (cur @ [t]) = ts + 1"
          using len by simp
        from Cons.IH [OF rest upd this one' inv2] show ?thesis
          using V_Word by (simp add: spec_words_Cons)
      next
        case held: False
        then have rest: "Make_Paramlist_loop fe c items (pl[ts + 1 := t, ts := t]) (ts + 1) bubble
                         = Inr (pl', ts', bubble')"
          using run V_Word nxt cls t False by simp
        obtain ws1 bw ws2 s' b' x' where old: "ws = ws1 @ bw # ws2" "names_sym fe c bw"
            "bubble = V_Typeset s' b' x'" "(s', x') = word_key bw" "cur \<noteq> []"
            "map typeset_key (butlast cur) = map word_key (ws1 @ ws2)"
          using inv held by (auto simp: bubble_inv_def IS_END_def)
        let ?cur = "butlast cur @ [t, t]"
        have "(s0 # (cur @ [t]) @ map (fresh_key fe) (spec_words items))[length cur := t]
                = s0 # (butlast cur @ [t]) @ ([t] @ map (fresh_key fe) (spec_words items))"
          using upd_last [OF old(5), of s0 "[t] @ map (fresh_key fe) (spec_words items)" t]
          by simp
        then have upd2: "pl[ts + 1 := t, ts := t]
                     = s0 # ?cur @ map (fresh_key fe) (spec_words items)"
          using upd len by simp
        have inv2: "bubble_inv fe c ?cur bubble (ws @ [?w])"
          unfolding bubble_inv_def
          using old t tk
          by (intro disjI2 exI [of _ ws1] exI [of _ bw] exI [of _ "ws2 @ [?w]"]
              exI [of _ s'] exI [of _ b'] exI [of _ x'])
            (auto simp: butlast_append)
        have "length ?cur = ts + 1"
          using len old(5) by (cases cur) auto
        from Cons.IH [OF rest upd2 this one' inv2] show ?thesis
          using V_Word by (simp add: spec_words_Cons)
      qed
    qed
  qed (use run in simp_all)
qed
lemma key_canons_append:
  "key_canons fe (ks @ ks') = key_canons fe ks @ key_canons fe ks'"
  by (induction fe ks rule: key_canons.induct) simp_all

lemma fst_word_key: "fst (word_key (V_Word k s)) = s"
  by (cases k) simp_all

lemma Collect_Keylist_loop_keys:
  assumes "Collect_Keylist_loop fe items keys = Inr keys'"
  shows "keys' = keys @ map (fresh_key fe) (spec_words items)
         \<and> (distinct (key_canons fe keys) \<longrightarrow> distinct (key_canons fe keys'))"
  using assms
proof (induction fe items keys rule: Collect_Keylist_loop.induct)
  case (1 fe keys)
  then show ?case
    by (simp add: spec_words_def)
next
  case (2 fe k s items keys)
  then show ?case
    by (auto simp: spec_words_Cons fresh_key_def key_canons_append fst_word_key
        simp del: word_key.simps split: if_splits)
qed (auto simp: spec_words_def)

lemma key_canons_fresh:
  "key_canons fe (map (fresh_key fe) ws) = map (\<lambda>w. FN_CANON fe (fst (word_key w))) ws"
  by (induction ws) (simp_all add: fresh_key_def)

lemma distinct_filter_le_1:
  "distinct (map f xs) \<Longrightarrow> length (filter (\<lambda>x. f x = c) xs) \<le> 1"
proof (induction xs)
  case Nil
  then show ?case by simp
next
  case (Cons x xs)
  show ?case
  proof (cases "f x = c")
    case True
    have "f x \<notin> f ` set xs"
      using Cons.prems by simp
    then have "\<forall>y \<in> set xs. f y \<noteq> c"
      using True by blast
    then have "filter (\<lambda>x. f x = c) xs = []"
      by (simp add: filter_empty_conv)
    then show ?thesis
      using True by simp
  next
    case False
    then show ?thesis
      using Cons by simp
  qed
qed

lemma single_match_split:
  assumes "ws = ws1 @ bw # ws2" and "P bw" and "length (filter P ws) \<le> 1"
  shows "filter P ws = [bw] \<and> filter (\<lambda>w. \<not> P w) ws = ws1 @ ws2"
proof -
  have "length (filter P ws1) + length (filter P ws2) = 0"
    using assms by simp
  then have e: "filter P ws1 = [] \<and> filter P ws2 = []"
    by simp
  then have "\<forall>w \<in> set ws1. \<not> P w" and "\<forall>w \<in> set ws2. \<not> P w"
    by (simp_all add: filter_empty_conv)
  then have "filter (\<lambda>w. \<not> P w) ws1 = ws1 \<and> filter (\<lambda>w. \<not> P w) ws2 = ws2"
    by (simp add: filter_id_conv)
  then show ?thesis
    using assms(1,2) e by simp
qed

text \<open>
  C3. For every spec block that \<^verbatim>\<open>Make_Paramlist_Managed\<close> accepts and every requested
  bubble symbol (not \<^verbatim>\<open>SYM_0\<close>) that one of the declared parameter words names, exactly
  one declared word names it; behind slot 0 the parameter list has the keys (symbol and
  parameter-class flags) of all other declared words in their order of declaration,
  followed by the key of that word, which is therefore in the final position.
\<close>

theorem paramlist_bubble_last:
  assumes ok: "Make_Paramlist_Managed fe spec c = Inr pl"
    and c: "c \<noteq> SYM_0"
    and present: "\<exists>w \<in> set (spec_words spec). names_sym fe c w"
  shows "\<exists>bw. filter (names_sym fe c) (spec_words spec) = [bw]
           \<and> map typeset_key (tl pl)
               = map word_key (filter (\<lambda>w. \<not> names_sym fe c w) (spec_words spec)) @ [word_key bw]
           \<and> typeset_key (last pl) = word_key bw"
proof -
  let ?ws = "spec_words spec"
  obtain keys where coll: "Collect_Keylist_loop fe spec [] = Inr keys"
    using ok by (auto simp: Make_Paramlist_Managed_def Collect_Keylist_Managed_def
        split: sum.splits)
  have keys: "keys = map (fresh_key fe) ?ws" and dist: "distinct (key_canons fe keys)"
    using Collect_Keylist_loop_keys [OF coll] by auto
  have "distinct (map (\<lambda>w. FN_CANON fe (fst (word_key w))) ?ws)"
    using dist by (simp add: keys key_canons_fresh)
  then have one: "length (filter (names_sym fe c) ?ws) \<le> 1"
    using distinct_filter_le_1 [of "\<lambda>w. FN_CANON fe (fst (word_key w))" ?ws c]
    by (simp add: names_sym_def [abs_def])
  obtain pl' ts bubble where
    run: "Make_Paramlist_loop fe c spec (V_Unset # keys) 0 V_End = Inr (pl', ts, bubble)"
    and fin: "pl = pl'[ts := bubble]"
    using ok c coll
    by (auto simp: Make_Paramlist_Managed_def Collect_Keylist_Managed_def split: sum.splits)
  have start: "bubble_inv fe c [] V_End []"
    by (simp add: bubble_inv_def)
  obtain cur where pl': "pl' = V_Unset # cur" and len: "length cur = ts"
    and inv: "bubble_inv fe c cur bubble ?ws"
    using Make_Paramlist_loop_inv [OF run, of V_Unset "[]" "[]"] keys one start
    by auto
  have "filter (names_sym fe c) ?ws \<noteq> []"
    using present by (simp add: filter_empty_conv)
  then obtain ws1 bw ws2 s b x where found: "?ws = ws1 @ bw # ws2" "names_sym fe c bw"
      "bubble = V_Typeset s b x" "(s, x) = word_key bw" "cur \<noteq> []"
      "map typeset_key (butlast cur) = map word_key (ws1 @ ws2)"
    using inv unfolding bubble_inv_def by blast
  have split: "filter (names_sym fe c) ?ws = [bw]
      \<and> filter (\<lambda>w. \<not> names_sym fe c w) ?ws = ws1 @ ws2"
    using single_match_split [OF found(1) found(2) one] .
  have "pl = V_Unset # (butlast cur @ [bubble]) @ []"
    using upd_last [OF found(5), of V_Unset "[]" bubble] fin pl' len by simp
  then have shape: "pl = V_Unset # butlast cur @ [bubble]"
    by simp
  have "map typeset_key (tl pl) = map word_key (ws1 @ ws2) @ [word_key bw]"
    using shape found(3,4,6) by simp
  moreover have "typeset_key (last pl) = word_key bw"
    using shape found(3,4) by simp
  ultimately show ?thesis
    using split by simp
qed

theorem paramlist_bubble_last_witness:
  "map typeset_key (tl (projr (Make_Paramlist_Managed boot_fenv
       [V_Word REB_WORD 1, V_Word REB_SET_WORD 90, V_Word REB_REFINEMENT 2] 90)))
     = [(1, {EXT_TYPESET_EVALUATE}), (2, {EXT_TYPESET_REFINEMENT}), (90, {EXT_TYPESET_HIDDEN})]"
proof -
  let ?spec = "[V_Word REB_WORD 1, V_Word REB_SET_WORD 90, V_Word REB_REFINEMENT 2]"
  have run: "Make_Paramlist_Managed boot_fenv ?spec 90 =
      Inr [V_Unset, V_Typeset 1 (- 1) {EXT_TYPESET_EVALUATE},
           V_Typeset 2 6 {EXT_TYPESET_REFINEMENT}, V_Typeset 90 (- 1) {EXT_TYPESET_HIDDEN}]"
    by (simp add: Make_Paramlist_Managed_def Collect_Keylist_Managed_def boot_fenv_def
        BLK_SKIP_def IS_END_def SYM_0_def)
  show ?thesis
    using paramlist_bubble_last [OF run] run
    by (simp add: spec_words_def names_sym_def boot_fenv_def SYM_0_def)
qed

subsection \<open>A declared return\<close>

text \<open>
  C4 at its input. For the spec \<^verbatim>\<open>[return: [integer!]]\<close> (any block of types after the
  set-word) and \<^verbatim>\<open>has_return\<close> true, the scan passes over the set-word before it looks
  at its symbol, so \<^verbatim>\<open>has_return\<close> stays true and a second \<^verbatim>\<open>return:\<close> is appended to the
  copied spec; collecting the keys of that spec then fails on the duplicate, and no
  function is built.
\<close>

theorem make_function_return_set_word:
  "Make_Function_spec fe [V_Word REB_SET_WORD (SYM_RETURN fe), V_Array REB_BLOCK tys] True
     = Inr ([V_Word REB_SET_WORD (SYM_RETURN fe), V_Array REB_BLOCK tys,
             V_Word REB_SET_WORD (SYM_RETURN fe)], True, {})
   \<and> Make_Function fe kind
         (V_Array REB_BLOCK [V_Word REB_SET_WORD (SYM_RETURN fe), V_Array REB_BLOCK tys])
         (V_Array REB_BLOCK body) True
       = Inl (RE_DUP_VARS (V_Word REB_SET_WORD (SYM_RETURN fe)))"
proof -
  have scan: "Make_Function_spec fe [V_Word REB_SET_WORD (SYM_RETURN fe), V_Array REB_BLOCK tys] True
     = Inr ([V_Word REB_SET_WORD (SYM_RETURN fe), V_Array REB_BLOCK tys,
             V_Word REB_SET_WORD (SYM_RETURN fe)], True, {})"
    by (simp add: Make_Function_spec_def IS_SET_WORD_def ROOT_RETURN_SET_WORD_def)
  have dup: "Make_Paramlist_Managed fe [V_Word REB_SET_WORD (SYM_RETURN fe), V_Array REB_BLOCK tys,
             V_Word REB_SET_WORD (SYM_RETURN fe)] (SYM_RETURN fe)
     = Inl (RE_DUP_VARS (V_Word REB_SET_WORD (SYM_RETURN fe)))"
    by (simp add: Make_Paramlist_Managed_def Collect_Keylist_Managed_def)
  show ?thesis
    using scan dup by (simp add: Make_Function_def)
qed

theorem make_function_return_set_word_witness:
  "Make_Function boot_fenv REB_FUNCTION
     (V_Array REB_BLOCK [V_Word REB_SET_WORD 90, V_Array REB_BLOCK [V_Word REB_WORD 33]])
     (V_Array REB_BLOCK []) True
   = Inl (RE_DUP_VARS (V_Word REB_SET_WORD 90))"
  using make_function_return_set_word [of boot_fenv "[V_Word REB_WORD 33]" REB_FUNCTION "[]"]
  by (simp add: boot_fenv_def)

subsection \<open>Rollback of a trap\<close>

lemma run_ops_Cons: "run_ops g (x # ops) = run_ops (apply_op g x) ops"
  by (simp add: run_ops_def)

lemma run_ops_unchanged:
  "Saved_State (run_ops g ops) = Saved_State g \<and> mem (run_ops g ops) = mem g
   \<and> freed_calls (run_ops g ops) = freed_calls g
   \<and> freed_series (run_ops g ops) = freed_series g
   \<and> GC_Disabled (run_ops g ops) = GC_Disabled g"
proof (induction ops arbitrary: g)
  case Nil
  then show ?case by (simp add: run_ops_def)
next
  case (Cons x ops)
  show ?case
    using Cons [of "apply_op g x"] by (cases x) (simp_all add: run_ops_Cons)
qed

lemma run_ops_CS_Top:
  "CS_Top (run_ops g ops) = foldl (\<lambda>c a. Some (Reb_Call a c)) (CS_Top g) (made_calls ops)"
proof (induction ops arbitrary: g)
  case Nil
  then show ?case by (simp add: run_ops_def)
next
  case (Cons x ops)
  show ?case
    using Cons [of "apply_op g x"] by (cases x) (simp_all add: run_ops_Cons)
qed

lemma run_ops_GC_Manuals:
  "GC_Manuals (run_ops g ops) = foldl ser_push (GC_Manuals g) (made_series ops)"
proof (induction ops arbitrary: g)
  case Nil
  then show ?case by (simp add: run_ops_def)
next
  case (Cons x ops)
  show ?case
    using Cons [of "apply_op g x"] by (cases x) (simp_all add: run_ops_Cons)
qed

lemma pushed_manuals:
  "ser_tail (foldl ser_push m as) = ser_tail m + length as
   \<and> (\<forall>i < length as. ser_data (foldl ser_push m as) (ser_tail m + i) = as ! i)"
proof (induction as rule: rev_induct)
  case Nil
  then show ?case by simp
next
  case (snoc a as)
  then show ?case
    by (auto simp: ser_push_def nth_append less_Suc_eq)
qed

lemma globals_same_top:
  "CS_Top g = c \<Longrightarrow> g\<lparr>CS_Top := c\<rparr> = g"
  "CS_Top g = c \<Longrightarrow> g\<lparr>CS_Top := c, freed_calls := freed_calls g\<rparr> = g"
  by auto

lemma free_calls_pushed:
  assumes "CS_Top g = foldl (\<lambda>c a. Some (Reb_Call a c)) tp as"
    and "\<forall>a \<in> set as. Some a \<noteq> dsf"
  shows "free_calls dsf (CS_Top g) g
           = free_calls dsf tp (g\<lparr>CS_Top := tp, freed_calls := freed_calls g \<union> set as\<rparr>)"
  using assms
proof (induction as arbitrary: g rule: rev_induct)
  case Nil
  then show ?case by (simp add: globals_same_top)
next
  case (snoc a as)
  let ?p = "foldl (\<lambda>c a. Some (Reb_Call a c)) tp as"
  let ?g = "Free_Call (Reb_Call a ?p) g"
  have tp: "CS_Top g = Some (Reb_Call a ?p)"
    using snoc.prems(1) by simp
  have "free_calls dsf (CS_Top g) g = free_calls dsf ?p ?g"
    using tp snoc.prems(2) by simp
  also have "\<dots> = free_calls dsf (CS_Top ?g) ?g"
    by (simp add: Free_Call_def)
  also have "\<dots> = free_calls dsf tp (?g\<lparr>CS_Top := tp, freed_calls := freed_calls ?g \<union> set as\<rparr>)"
    using snoc.prems(2) by (intro snoc.IH) (simp_all add: Free_Call_def)
  also have "?g\<lparr>CS_Top := tp, freed_calls := freed_calls ?g \<union> set as\<rparr>
               = g\<lparr>CS_Top := tp, freed_calls := freed_calls g \<union> set (as @ [a])\<rparr>"
    by (simp add: Free_Call_def)
  finally show ?case .
qed

lemma free_calls_down:
  assumes "dsf = None \<or> (\<exists>a. dsf = Some a \<and> a \<in> set (call_chain tp))"
    and "CS_Top g = tp"
  shows "\<exists>tp' fr. free_calls dsf tp g = Inr (g\<lparr>CS_Top := tp', freed_calls := fr\<rparr>)
           \<and> call_ptr tp' = dsf \<and> freed_calls g \<subseteq> fr"
  using assms
proof (induction dsf tp g rule: free_calls.induct)
  case (1 dsf g)
  then have d: "dsf = None"
    by auto
  have "g\<lparr>CS_Top := None, freed_calls := freed_calls g\<rparr> = g"
    using 1(2) by (simp add: globals_same_top)
  then have "free_calls dsf None g = Inr (g\<lparr>CS_Top := None, freed_calls := freed_calls g\<rparr>)"
    using d by simp
  then show ?case
    using d by (intro exI [of _ None] exI [of _ "freed_calls g"]) (simp add: call_ptr_def)
next
  case (2 dsf a p g)
  show ?case
  proof (cases "Some a = dsf")
    case True
    then have "free_calls dsf (Some (Reb_Call a p)) g
        = Inr (g\<lparr>CS_Top := Some (Reb_Call a p), freed_calls := freed_calls g\<rparr>)"
      using "2.prems"(2) by (simp add: globals_same_top)
    then show ?thesis
      using True
      by (intro exI [of _ "Some (Reb_Call a p)"] exI [of _ "freed_calls g"])
        (auto simp: call_ptr_def)
  next
    case False
    let ?g = "Free_Call (Reb_Call a p) g"
    have reach: "dsf = None \<or> (\<exists>b. dsf = Some b \<and> b \<in> set (call_chain p))"
      using "2.prems"(1) False by auto
    obtain tp' fr where r: "free_calls dsf p ?g = Inr (?g\<lparr>CS_Top := tp', freed_calls := fr\<rparr>)"
        "call_ptr tp' = dsf" "freed_calls ?g \<subseteq> fr"
      using "2.IH" [OF False reach] by (auto simp: Free_Call_def)
    have "free_calls dsf (Some (Reb_Call a p)) g = Inr (g\<lparr>CS_Top := tp', freed_calls := fr\<rparr>)"
      using False r(1) by (simp add: Free_Call_def)
    moreover have "freed_calls g \<subseteq> fr"
      using r(3) by (auto simp: Free_Call_def)
    ultimately show ?thesis
      using r(2) by blast
  qed
qed

lemma find_manual_last: "d n = s \<Longrightarrow> find_manual d s (Suc n) = Some n"
  by simp

lemma Free_Series_last:
  assumes "0 < ser_tail (GC_Manuals g)"
  shows "Free_Series (ser_data (GC_Manuals g) (ser_tail (GC_Manuals g) - 1)) g
    = Inr (g\<lparr>GC_Manuals := (GC_Manuals g)\<lparr>ser_tail := ser_tail (GC_Manuals g) - 1\<rparr>,
              freed_series := insert (ser_data (GC_Manuals g) (ser_tail (GC_Manuals g) - 1))
                                (freed_series g)\<rparr>)"
proof -
  obtain n where n: "ser_tail (GC_Manuals g) = Suc n"
    using assms by (cases "ser_tail (GC_Manuals g)") auto
  show ?thesis
    by (simp add: Free_Series_def Let_def n)
qed

lemma free_manuals_pushed:
  assumes "ser_tail (GC_Manuals g) = mt + length as"
    and "\<forall>i < length as. ser_data (GC_Manuals g) (mt + i) = as ! i"
  shows "free_manuals mt g
           = Inr (g\<lparr>GC_Manuals := (GC_Manuals g)\<lparr>ser_tail := mt\<rparr>,
                    freed_series := freed_series g \<union> set as\<rparr>)"
  using assms
proof (induction as arbitrary: g rule: rev_induct)
  case Nil
  then show ?case
    by (subst free_manuals.simps) simp
next
  case (snoc a as)
  let ?t = "ser_tail (GC_Manuals g)"
  have t: "?t = Suc (mt + length as)"
    using snoc.prems(1) by simp
  have last: "ser_data (GC_Manuals g) (?t - 1) = a"
    using snoc.prems(2) [rule_format, of "length as"] t by simp
  let ?g = "g\<lparr>GC_Manuals := (GC_Manuals g)\<lparr>ser_tail := ?t - 1\<rparr>,
              freed_series := insert a (freed_series g)\<rparr>"
  have fs: "Free_Series (ser_data (GC_Manuals g) (?t - 1)) g = Inr ?g"
    using Free_Series_last [of g] t last by simp
  have "free_manuals mt g = free_manuals mt ?g"
    using t fs by (subst free_manuals.simps) simp
  also have "\<dots> = Inr (?g\<lparr>GC_Manuals := (GC_Manuals ?g)\<lparr>ser_tail := mt\<rparr>,
                    freed_series := freed_series ?g \<union> set as\<rparr>)"
  proof (rule snoc.IH)
    show "ser_tail (GC_Manuals ?g) = mt + length as"
      using t by simp
    show "\<forall>i < length as. ser_data (GC_Manuals ?g) (mt + i) = as ! i"
      using snoc.prems(2) by (auto simp: nth_append)
  qed
  also have "?g\<lparr>GC_Manuals := (GC_Manuals ?g)\<lparr>ser_tail := mt\<rparr>,
                    freed_series := freed_series ?g \<union> set as\<rparr>
      = g\<lparr>GC_Manuals := (GC_Manuals g)\<lparr>ser_tail := mt\<rparr>,
                    freed_series := freed_series g \<union> set (as @ [a])\<rparr>"
    by simp
  finally show ?case .
qed
text \<open>
  C1. Push a trap; then allocate manual series, push call frames (and let them run), push
  guards and data-stack values, in any number and order; then fail. Provided the frame
  running when the trap was pushed is \<^verbatim>\<open>NULL\<close> or on the call stack, no frame pushed
  since has its address, and the error raised has an integer code, the trap handler
  returns, and afterwards the tail of \<^verbatim>\<open>GC_Manuals\<close>, the running frame and the top of
  the call stack, the data-stack pointer, both guard-stack tails and the GC-disabled
  flag are what they were when the trap was pushed, every call frame and every manual
  series made in between has been freed, and the saved state is again the one that was
  active before the push. The flag returned tells whether the error was a halt.
\<close>

theorem trap_rollback:
  assumes reach: "DSF g0 = None
                  \<or> (\<exists>c. DSF g0 = Some c \<and> call_addr c \<in> set (call_chain (CS_Top g0)))"
    and fresh: "\<forall>a \<in> set (made_calls ops). Some a \<noteq> call_ptr (DSF g0)"
    and err: "IS_INTEGER (err_code (frames (mem g0) ef))"
  shows "\<exists>halted g3.
      fail_trapped re_halt (run_ops (Push_Trap_Helper g0) ops) ef = Inr (halted, g3)
      \<and> ser_tail (GC_Manuals g3) = ser_tail (GC_Manuals g0)
      \<and> DSF g3 = DSF g0
      \<and> call_ptr (CS_Top g3) = call_ptr (DSF g0)
      \<and> DSP g3 = DSP g0
      \<and> ser_tail (GC_Series_Guard g3) = ser_tail (GC_Series_Guard g0)
      \<and> ser_tail (GC_Value_Guard g3) = ser_tail (GC_Value_Guard g0)
      \<and> GC_Disabled g3 = GC_Disabled g0
      \<and> Saved_State g3 = Saved_State g0
      \<and> set (made_calls ops) \<subseteq> freed_calls g3
      \<and> set (made_series ops) \<subseteq> freed_series g3
      \<and> (halted \<longleftrightarrow> ERR_NUM (frames (mem g0) ef) = Inr re_halt)"
proof -
  define g1 where "g1 = Push_Trap_Helper g0"
  define g2 where "g2 = run_ops g1 ops"
  define state where "state = Reb_State (DSP g0) (DSF g0) (ser_tail (GC_Series_Guard g0))
      (ser_tail (GC_Value_Guard g0)) (GC_Disabled g0) (ser_tail (GC_Manuals g0))
      (Saved_State g0) (Some ef)"
  define gf where "gf = g2\<lparr>Saved_State := Some state, TASK_THROWN_ARG := V_Unset\<rparr>"
  define dsf where "dsf = call_ptr (DSF g0)"
  have g1: "Saved_State g1 = Some (Reb_State (DSP g0) (DSF g0) (ser_tail (GC_Series_Guard g0))
      (ser_tail (GC_Value_Guard g0)) (GC_Disabled g0) (ser_tail (GC_Manuals g0))
      (Saved_State g0) None)"
      "CS_Top g1 = CS_Top g0" "GC_Manuals g1 = GC_Manuals g0" "mem g1 = mem g0"
    by (simp_all add: g1_def Push_Trap_Helper_def)
  have same: "Saved_State g2 = Saved_State g1" "mem g2 = mem g0"
    using run_ops_unchanged [of g1 ops] g1(4) by (simp_all add: g2_def)
  have fc: "Fail_Core g2 ef = Inr gf"
    by (simp add: Fail_Core_def same(1) g1(1) gf_def state_def)
  have ft: "fail_trapped re_halt g2 ef = Trapped_Helper_Halted re_halt state gf"
    by (simp add: fail_trapped_def fc) (simp add: gf_def)
  obtain num where num: "ERR_NUM (frames (mem g0) ef) = Inr num"
    using err by (cases "err_code (frames (mem g0) ef)") (auto simp: ERR_NUM_def IS_INTEGER_def)
  have top: "CS_Top gf = foldl (\<lambda>c a. Some (Reb_Call a c)) (CS_Top g0) (made_calls ops)"
    using run_ops_CS_Top [of g1 ops] g1(2) by (simp add: gf_def g2_def)
  have down: "dsf = None \<or> (\<exists>a. dsf = Some a \<and> a \<in> set (call_chain (CS_Top g0)))"
    using reach by (auto simp: dsf_def call_ptr_def)
  define ga where "ga = gf\<lparr>CS_Top := CS_Top g0,
      freed_calls := freed_calls gf \<union> set (made_calls ops)\<rparr>"
  have "free_calls dsf (CS_Top gf) gf = free_calls dsf (CS_Top g0) ga"
    unfolding ga_def using top fresh by (intro free_calls_pushed) (simp_all add: dsf_def)
  moreover obtain tp fr where
    "free_calls dsf (CS_Top g0) ga = Inr (ga\<lparr>CS_Top := tp, freed_calls := fr\<rparr>)"
    and tp: "call_ptr tp = dsf" and fr: "freed_calls ga \<subseteq> fr"
    using free_calls_down [OF down, of ga] by (auto simp: ga_def)
  ultimately have calls: "free_calls dsf (CS_Top gf) gf
      = Inr (ga\<lparr>CS_Top := tp, freed_calls := fr\<rparr>)"
    by simp
  define gc where "gc = ga\<lparr>CS_Top := tp, freed_calls := fr\<rparr>"
  define gb where "gb = gc\<lparr>DSF := s_dsf state, DSP := s_dsp state\<rparr>"
  define gd where "gd = gb\<lparr>GC_Manuals := (GC_Manuals gb)\<lparr>ser_tail := s_manuals_tail state\<rparr>,
                freed_series := freed_series gb \<union> set (made_series ops)\<rparr>"
  have sel: "s_error_frame state = Some ef" "s_manuals_tail state = ser_tail (GC_Manuals g0)"
    by (simp_all add: state_def)
  have en: "ERR_NUM (frames (mem gf) ef) = Inr num"
    using num same(2) by (simp add: gf_def)
  have calls': "free_calls (call_ptr (s_dsf state)) (CS_Top gf) gf = Inr gc"
    using calls by (simp add: gc_def dsf_def state_def)
  have man: "GC_Manuals gb = foldl ser_push (GC_Manuals g0) (made_series ops)"
    using run_ops_GC_Manuals [of g1 ops] g1(3)
    by (simp add: gb_def gc_def ga_def gf_def g2_def)
  have fm: "free_manuals (s_manuals_tail state) gb = Inr gd"
    unfolding gd_def sel(2)
    using pushed_manuals [of "GC_Manuals g0" "made_series ops"]
    by (intro free_manuals_pushed) (simp_all add: man)
  have fm': "free_manuals (s_manuals_tail state) (gc\<lparr>DSF := s_dsf state, DSP := s_dsp state\<rparr>)
               = Inr gd"
    using fm by (simp only: gb_def)
  have run: "Trapped_Helper_Halted re_halt state gf = Inr (num = re_halt,
      gd\<lparr>GC_Series_Guard := (GC_Series_Guard gd)\<lparr>ser_tail := s_series_guard_tail state\<rparr>,
          GC_Value_Guard := (GC_Value_Guard gd)\<lparr>ser_tail := s_value_guard_tail state\<rparr>,
          GC_Disabled := s_gc_disable state,
          Saved_State := s_last_state state\<rparr>)"
    by (simp only: Trapped_Helper_Halted_def Let_def sel(1) en calls' fm' option.case sum.case)
  have calls_freed: "set (made_calls ops) \<subseteq> fr"
    using fr by (auto simp: ga_def)
  show ?thesis
    using ft run tp num calls_freed
    by (simp add: g2_def [symmetric] g1_def [symmetric])
      (simp add: gd_def gb_def gc_def ga_def gf_def state_def dsf_def)
qed
theorem trap_rollback_witness:
  "\<exists>halted g3.
     fail_trapped 1 (run_ops (Push_Trap_Helper boot_globals)
        [Op_Make_Series 40, Op_Make_Call 50, Op_Set_DSF, Op_Make_Series 41,
         Op_Guard_Series 40, Op_Make_Series 42, Op_DS_Push]) 20 = Inr (halted, g3)
     \<and> ser_tail (GC_Manuals g3) = 0
     \<and> {40, 41, 42} \<subseteq> freed_series g3
     \<and> 50 \<in> freed_calls g3
     \<and> DSF g3 = None \<and> DSP g3 = - 1
     \<and> ser_tail (GC_Series_Guard g3) = 0
     \<and> Saved_State g3 = None"
  using trap_rollback [of boot_globals
      "[Op_Make_Series 40, Op_Make_Call 50, Op_Set_DSF, Op_Make_Series 41,
        Op_Guard_Series 40, Op_Make_Series 42, Op_DS_Push]" 20 1]
  by (simp add: boot_globals_def call_ptr_def err_code_def FRM_VALUE_def BLK_SKIP_def
      IS_INTEGER_def) blast

end
